theory Spec2Isabelle
  imports Main
begin

section \<open>The file-backed data store of lib/dataStore.js\<close>

text \<open>
  The module keeps one variable \<^verbatim>\<open>store\<close>, fills it from a directory tree
  (\<^verbatim>\<open>users/\<close>, \<^verbatim>\<open>groups/\<close>, \<^verbatim>\<open>layers/\<close>) and answers queries from it.
  The embedding follows the source function by function:
  \<^item> the file system and the record parser are read through a record of functions, each
    returning the error it reports or its result;
  \<^item> a callback is modelled by the list of its invocations, in the order they happen:
    \<open>Inl err\<close> is \<^verbatim>\<open>callback(err)\<close>, \<open>Inr v\<close> is \<^verbatim>\<open>callback(null, v)\<close>, and the
    empty list is a callback that is never invoked;
  \<^item> an exception thrown by a transform is the value \<open>Inl err\<close> of the transform;
  \<^item> an exception that nothing catches is thrown to the event loop and ends the process;
    the functions \<open>load_thrown\<close>, \<open>on_ready_thrown\<close> and \<open>on_all_thrown\<close> give these
    exceptions. When there is one the module answers no query any more, and the state
    the other functions give is that of its variables when the process ends;
  \<^item> objects that are shared and mutated (users, groups) live in a heap; a reference is
    an address of that heap.
\<close>

subsection \<open>Errors, file system and parser\<close>

datatype error =
    FsError string
  | YAMLException string
  | TypeError string
  | InvalidCredentialsError string
  | Error string
  | Message string

text \<open>What \<^verbatim>\<open>fs.lstat\<close> reports about an entry: \<^verbatim>\<open>isFile()\<close>, \<^verbatim>\<open>isDirectory()\<close>,
  \<^verbatim>\<open>isSymbolicLink()\<close>, or none of them (a socket, a FIFO, a device).\<close>

datatype kind = RegularFile | Directory | SymbolicLink | OtherKind

record fs =
  readdir :: "string \<Rightarrow> error + string list"
  lstat :: "string \<Rightarrow> error + kind"
  readFile :: "string \<Rightarrow> error + string"

text \<open>
  The fields of a parsed record that the store reads, each at the type the store expects
  of it. \<open>None\<close> is an absent field.
  The parser \<^verbatim>\<open>yaml.safeLoad\<close> is a parameter: it throws (\<open>Inl\<close>), or returns
  \<^verbatim>\<open>null\<close> (\<open>Inr None\<close>, an empty document), or returns a mapping. Its argument is
  the text of the file, or \<^verbatim>\<open>undefined\<close> (\<open>None\<close>) when the entry is not a regular file.
  Documents that are scalars or sequences are not covered.
\<close>

record yaml_record =
  y_publicKeys :: "string list option"
  y_primaryGroup :: "string option"
  y_groups :: "string list option"
  y_gidNumber :: "int option"
  y_members :: "string list option"

type_synonym parser = "string option \<Rightarrow> error + yaml_record option"

record env =
  files :: fs
  safeLoad :: parser

subsection \<open>Strings\<close>

text \<open>\<^verbatim>\<open>String.prototype.split\<close> with a one-character separator, and
  \<^verbatim>\<open>Array.prototype.join\<close>. The split of a string is never the empty array.\<close>

fun split :: "char \<Rightarrow> string \<Rightarrow> string list" where
  "split sep [] = [[]]"
| "split sep (x # xs) =
     (if x = sep then [] # split sep xs
      else (case split sep xs of [] \<Rightarrow> [[x]] | t # ts \<Rightarrow> (x # t) # ts))"

fun join :: "string \<Rightarrow> string list \<Rightarrow> string" where
  "join sep [] = []"
| "join sep [t] = t"
| "join sep (t # ts) = t @ sep @ join sep ts"

text \<open>An array read \<^verbatim>\<open>xs[i]\<close>: \<open>None\<close> is \<^verbatim>\<open>undefined\<close>.\<close>

definition at_index :: "'a list \<Rightarrow> nat \<Rightarrow> 'a option" where
  "at_index xs i = (if i < length xs then Some (xs ! i) else None)"

text \<open>\<^verbatim>\<open>tokens.slice(0, tokens.length - 1)\<close>: all tokens but the last; on the empty array
  the end index \<open>-1\<close> counts from the end and the slice is empty.\<close>

definition slice_but_last :: "'a list \<Rightarrow> 'a list" where
  "slice_but_last tokens = take (length tokens - 1) tokens"

text \<open>The value is a string, or \<^verbatim>\<open>undefined\<close> (\<open>None\<close>) on the branch for an empty
  token array.\<close>

definition fileUid :: "string \<Rightarrow> string option" where
  "fileUid filename =
     (let tokens = split CHR ''.'' filename in
      if length tokens = 0 then at_index tokens 0
      else Some (join ''.'' (slice_but_last tokens)))"

subsection \<open>Record Loader: loadDir\<close>

text \<open>
  The state of one \<^verbatim>\<open>loadDir\<close> call: the array \<^verbatim>\<open>result\<close>, the counter \<^verbatim>\<open>c\<close> and
  the invocations of \<^verbatim>\<open>callback\<close> so far. The wrapper \<^verbatim>\<open>cb(callback)\<close> defers every
  invocation to the next tick and lets the callback be invoked any number of times.
\<close>

record 'r accumulator =
  result :: "'r list"
  c :: int
  calls :: "(error + 'r list) list"

text \<open>\<^verbatim>\<open>accumulate\<close>: the transform is applied to the arguments; when it throws, the
  callback gets the error and the counter is not touched; otherwise the value is pushed,
  the counter is decremented and, when it reaches zero, the callback gets the result.\<close>

definition accumulate ::
  "(string \<times> string option \<Rightarrow> error + 'r) \<Rightarrow> string \<times> string option \<Rightarrow>
   'r accumulator \<Rightarrow> 'r accumulator" where
  "accumulate fn args st =
     (case fn args of
        Inl err \<Rightarrow> st\<lparr>calls := calls st @ [Inl err]\<rparr>
      | Inr v \<Rightarrow>
          (let st' = st\<lparr>result := result st @ [v], c := c st - 1\<rparr>
           in if 0 = c st' then st'\<lparr>calls := calls st' @ [Inr (result st')]\<rparr> else st'))"

text \<open>The body of \<^verbatim>\<open>files.forEach\<close> for one entry, at the time its \<^verbatim>\<open>lstat\<close> (and
  \<^verbatim>\<open>readFile\<close>) answer. An entry of no known kind falls through the three tests.\<close>

definition per_entry ::
  "fs \<Rightarrow> string \<Rightarrow> (string \<times> string option \<Rightarrow> error + 'r) \<Rightarrow>
   'r accumulator \<Rightarrow> string \<Rightarrow> 'r accumulator" where
  "per_entry f dir fn st file =
     (let fname = join ''/'' [dir, file] in
      case lstat f fname of
        Inl err \<Rightarrow> st\<lparr>calls := calls st @ [Inl err]\<rparr>
      | Inr stats \<Rightarrow>
          (if stats = RegularFile then
             (case readFile f fname of
                Inl err \<Rightarrow> st\<lparr>calls := calls st @ [Inl err]\<rparr>
              | Inr contents \<Rightarrow> accumulate fn (file, Some contents) st)
           else if stats = Directory then accumulate fn (file, None) st
           else if stats = SymbolicLink then accumulate fn (file, None) st
           else st))"

text \<open>
  The entries are taken in the order in which their I/O completes, which is the order of
  the listing here; every statement below holds for every listing, hence for every
  order. \<open>loadDir_run\<close> gives the final state, \<open>loadDir\<close> the invocations of the callback.
\<close>

definition loadDir_run ::
  "fs \<Rightarrow> string \<Rightarrow> (string \<times> string option \<Rightarrow> error + 'r) \<Rightarrow> string list \<Rightarrow> 'r accumulator" where
  "loadDir_run f dir fn entries =
     foldl (per_entry f dir fn) \<lparr>result = [], c = int (length entries), calls = []\<rparr> entries"

definition loadDir ::
  "fs \<Rightarrow> string \<Rightarrow> (string \<times> string option \<Rightarrow> error + 'r) \<Rightarrow> (error + 'r list) list" where
  "loadDir f dir fn =
     (case readdir f dir of
        Inl err \<Rightarrow> [Inl err]
      | Inr entries \<Rightarrow> calls (loadDir_run f dir fn entries))"

text \<open>How one entry ends, by the same tests as \<open>per_entry\<close>: an error is reported to the
  callback, a value is accumulated, or nothing happens at all.\<close>

datatype 'r entry_outcome = Reports error | Yields 'r | Ignored

definition entry_outcome ::
  "fs \<Rightarrow> string \<Rightarrow> (string \<times> string option \<Rightarrow> error + 'r) \<Rightarrow> string \<Rightarrow> 'r entry_outcome" where
  "entry_outcome f dir fn file =
     (let fname = join ''/'' [dir, file] in
      case lstat f fname of
        Inl err \<Rightarrow> Reports err
      | Inr stats \<Rightarrow>
          (if stats = RegularFile then
             (case readFile f fname of
                Inl err \<Rightarrow> Reports err
              | Inr contents \<Rightarrow>
                  (case fn (file, Some contents) of Inl err \<Rightarrow> Reports err | Inr v \<Rightarrow> Yields v))
           else if stats = Directory \<or> stats = SymbolicLink then
             (case fn (file, None) of Inl err \<Rightarrow> Reports err | Inr v \<Rightarrow> Yields v)
           else Ignored))"

text \<open>What the transform of an inner scan has pushed when the scan is over (nothing when
  the listing failed).\<close>

definition pushed ::
  "fs \<Rightarrow> string \<Rightarrow> (string \<times> string option \<Rightarrow> error + 'r) \<Rightarrow> 'r list" where
  "pushed f dir fn =
     (case readdir f dir of
        Inl err \<Rightarrow> []
      | Inr entries \<Rightarrow> result (loadDir_run f dir fn entries))"

subsection \<open>Objects of the store\<close>

text \<open>
  A reference is the address of a record of the heap, or a built-in object of the
  runtime: the indexes of \<^verbatim>\<open>buildDataStore\<close> are objects created by \<^verbatim>\<open>{}\<close>, and a
  property read on them also finds what \<^verbatim>\<open>Object.prototype\<close> provides.

  A user's \<^verbatim>\<open>primaryGroup\<close> is the identifier of the record (possibly absent) until it is
  replaced by the group found; a user's \<^verbatim>\<open>groups\<close> is the list of identifiers of the
  record (possibly absent) until it is replaced by the list of groups found. A group's
  \<^verbatim>\<open>members\<close> holds what the record had (names) and the users pushed.
  A \<^verbatim>\<open>uid\<close> or \<^verbatim>\<open>cn\<close> is a value of \<open>fileUid\<close>: a string or \<^verbatim>\<open>undefined\<close>.
\<close>

type_synonym addr = nat

datatype ref = Obj addr | Builtin string

datatype primary = RawPrimary "string option" | PrimaryRef ref

datatype user_groups = GroupIds "string list option" | GroupRefs "ref list"

datatype member = MemberName string | MemberUser addr

record user =
  uid :: "string option"
  cn :: "string option"
  user_publicKeys :: "string list"
  primaryGroup :: primary
  groups :: user_groups

record group =
  group_cn :: "string option"
  gidNumber :: int
  members :: "member list option"

datatype layer_users = UserIds "string option list" | UserRefs "ref list"

record layer =
  layer_id :: string
  layer_users :: layer_users

subsection \<open>Tree Loader: loadUsers, loadGroups, loadLayers\<close>

text \<open>The transform of \<^verbatim>\<open>loadUsers\<close>. The parser may throw; setting \<^verbatim>\<open>user.cn\<close> on
  \<^verbatim>\<open>null\<close> throws a TypeError; absent \<^verbatim>\<open>publicKeys\<close> become the empty array.\<close>

definition user_transform :: "parser \<Rightarrow> string \<times> string option \<Rightarrow> error + user option" where
  "user_transform parse args =
     (case args of (filename, contents) \<Rightarrow>
        (case parse contents of
           Inl err \<Rightarrow> Inl err
         | Inr None \<Rightarrow> Inl (TypeError ''Cannot set property cn of null'')
         | Inr (Some y) \<Rightarrow>
             Inr (Some \<lparr>uid = fileUid filename, cn = fileUid filename,
                        user_publicKeys = (case y_publicKeys y of None \<Rightarrow> [] | Some ks \<Rightarrow> ks),
                        primaryGroup = RawPrimary (y_primaryGroup y),
                        groups = GroupIds (y_groups y)\<rparr>)))"

text \<open>Modelled from the spec: the logger \<^verbatim>\<open>log\<close> of \<^verbatim>\<open>./logging\<close> is not among the source
  files. The transform of \<^verbatim>\<open>loadGroups\<close> returns the value of \<^verbatim>\<open>log.info\<close> for a record
  without \<^verbatim>\<open>gidNumber\<close>, and the specification says that such a record is dropped (the
  transform "returns skip", logging the omission): the value is \<^verbatim>\<open>undefined\<close>, here
  \<open>None\<close>. Every other call on the logger (\<^verbatim>\<open>log.warn\<close>, \<^verbatim>\<open>log.debug\<close>, \<^verbatim>\<open>log.err\<close>)
  only logs, as the specification says of each: it returns, and has no effect on the
  store.\<close>

definition log_info :: "string \<Rightarrow> 'a option" where
  "log_info message = None"

text \<open>The transform of \<^verbatim>\<open>loadGroups\<close>. The parser may throw; a \<^verbatim>\<open>null\<close> document gives
  \<^verbatim>\<open>null\<close>; a record whose \<^verbatim>\<open>gidNumber\<close> is absent or zero gives the value of
  \<^verbatim>\<open>log.info\<close>. Both are \<open>None\<close>, which \<^verbatim>\<open>compact\<close> removes later. No exception is
  caught here.\<close>

definition group_transform :: "parser \<Rightarrow> string \<times> string option \<Rightarrow> error + group option" where
  "group_transform parse args =
     (case args of (filename, contents) \<Rightarrow>
        (case parse contents of
           Inl err \<Rightarrow> Inl err
         | Inr None \<Rightarrow> Inr None
         | Inr (Some y) \<Rightarrow>
             (case y_gidNumber y of
                None \<Rightarrow> Inr (log_info (''Missing gidNumber for group '' @ filename))
              | Some n \<Rightarrow>
                  if n = 0 then Inr (log_info (''Missing gidNumber for group '' @ filename))
                  else Inr (Some \<lparr>group_cn = fileUid filename, gidNumber = n,
                                  members = map_option (map MemberName) (y_members y)\<rparr>))))"

definition loadUsers :: "env \<Rightarrow> string \<Rightarrow> (error + user option list) list" where
  "loadUsers e dir = loadDir (files e) (join ''/'' [dir, ''users'']) (user_transform (safeLoad e))"

definition loadGroups :: "env \<Rightarrow> string \<Rightarrow> (error + group option list) list" where
  "loadGroups e dir = loadDir (files e) (join ''/'' [dir, ''groups'']) (group_transform (safeLoad e))"

text \<open>The first transform of \<^verbatim>\<open>loadLayers\<close> makes a layer of every entry name; the
  second one pushes the uid of a name on the layer's \<^verbatim>\<open>users\<close> (its value here is the
  uid pushed; the source returns nothing).\<close>

definition layer_stub :: "string \<times> string option \<Rightarrow> error + layer" where
  "layer_stub args = Inr \<lparr>layer_id = fst args, layer_users = UserIds []\<rparr>"

definition member_transform :: "string \<times> string option \<Rightarrow> error + string option" where
  "member_transform args = Inr (fileUid (fst args))"

text \<open>The second phase of \<^verbatim>\<open>loadLayers\<close>: the array \<^verbatim>\<open>layers\<close>, the counter \<^verbatim>\<open>c\<close> and the
  invocations of the callback of \<^verbatim>\<open>loadLayers\<close>.\<close>

record layer_scan =
  layers :: "layer list"
  lc :: int
  lcalls :: "(error + layer list) list"

text \<open>The callback of one inner scan.\<close>

definition scanned :: "layer_scan \<Rightarrow> error + string option list \<Rightarrow> layer_scan" where
  "scanned st ev =
     (case ev of
        Inl err \<Rightarrow> st\<lparr>lcalls := lcalls st @ [Inl err]\<rparr>
      | Inr r \<Rightarrow>
          (let st' = st\<lparr>lc := lc st - 1\<rparr>
           in if 0 = lc st' then st'\<lparr>lcalls := lcalls st' @ [Inr (layers st')]\<rparr> else st'))"

text \<open>The body of \<^verbatim>\<open>layers.forEach\<close> for the layer at index \<open>i\<close>, with its inner scan.\<close>

definition scan_layer :: "fs \<Rightarrow> string \<Rightarrow> layer_scan \<Rightarrow> nat \<Rightarrow> layer_scan" where
  "scan_layer f dir st i =
     (let layer = layers st ! i;
          path = join ''/'' [dir, ''layers'', layer_id layer];
          st1 = st\<lparr>layers := (layers st)[i := layer\<lparr>layer_users := UserIds (pushed f path member_transform)\<rparr>]\<rparr>
      in foldl scanned st1 (loadDir f path member_transform))"

definition scan_layers :: "fs \<Rightarrow> string \<Rightarrow> error + layer list \<Rightarrow> (error + layer list) list" where
  "scan_layers f dir ev =
     (case ev of
        Inl err \<Rightarrow> [Inl err]
      | Inr ls \<Rightarrow>
          lcalls (foldl (scan_layer f dir) \<lparr>layers = ls, lc = int (length ls), lcalls = []\<rparr> [0..<length ls]))"

definition loadLayers :: "env \<Rightarrow> string \<Rightarrow> (error + layer list) list" where
  "loadLayers e dir =
     concat (map (scan_layers (files e) dir) (loadDir (files e) (join ''/'' [dir, ''layers'']) layer_stub))"

subsection \<open>async.parallel\<close>

text \<open>
  \<^verbatim>\<open>async.parallel\<close> with three tasks, by the library's contract. What a task passes to
  its callback goes to \<open>task_callback\<close>: the first error a task reports goes to the final
  callback, which is then replaced by a function that does nothing; a success stores the
  task's result and counts; when the count reaches the number of tasks the final callback
  gets the results.
\<close>

record ('a, 'b, 'd) parallel =
  live :: bool
  completed :: nat
  results :: "'a option \<times> 'b option \<times> 'd option"
  final :: "(error + 'a option \<times> 'b option \<times> 'd option) list"
  thrown :: "error list"

definition task_callback ::
  "('x \<Rightarrow> 'a option \<times> 'b option \<times> 'd option \<Rightarrow> 'a option \<times> 'b option \<times> 'd option) \<Rightarrow>
   ('a, 'b, 'd) parallel \<Rightarrow> error + 'x \<Rightarrow> ('a, 'b, 'd) parallel" where
  "task_callback put st ev =
     (case ev of
        Inl err \<Rightarrow>
          (if live st then st\<lparr>final := final st @ [Inl err], live := False\<rparr> else st)
      | Inr v \<Rightarrow>
          (let st' = st\<lparr>results := put v (results st), completed := completed st + 1\<rparr>
           in if completed st' = 3 \<and> live st' then st'\<lparr>final := final st' @ [Inr (results st')]\<rparr>
              else st'))"

text \<open>
  The library guards the callback of each task with its \<^verbatim>\<open>only_once\<close>: the first
  invocation is passed on, a later one throws \<^verbatim>\<open>Error("Callback was already called.")\<close>.
  The loaders invoke the callback from a callback of the event loop, where nothing catches
  the exception: it is recorded in \<open>thrown\<close>, and since it ends the process nothing is
  run after it. The flag paired with the state says whether the callback of the task at
  hand has been invoked.
\<close>

definition only_once ::
  "(('a, 'b, 'd) parallel \<Rightarrow> error + 'x \<Rightarrow> ('a, 'b, 'd) parallel) \<Rightarrow>
   ('a, 'b, 'd) parallel \<times> bool \<Rightarrow> error + 'x \<Rightarrow> ('a, 'b, 'd) parallel \<times> bool" where
  "only_once fn sc ev =
     (case sc of
        (st, called) \<Rightarrow>
          if thrown st \<noteq> [] then (st, called)
          else if called then (st\<lparr>thrown := thrown st @ [Error ''Callback was already called.'']\<rparr>, called)
          else (fn st ev, True))"

text \<open>One task: the invocations of its callback, each through the guard.\<close>

definition task ::
  "('x \<Rightarrow> 'a option \<times> 'b option \<times> 'd option \<Rightarrow> 'a option \<times> 'b option \<times> 'd option) \<Rightarrow>
   ('a, 'b, 'd) parallel \<Rightarrow> (error + 'x) list \<Rightarrow> ('a, 'b, 'd) parallel" where
  "task put st evs = fst (foldl (only_once (task_callback put)) (st, False) evs)"

text \<open>The three tasks, their callbacks taken in the order of the task list; then the
  invocations of the final callback, and the exceptions thrown to the event loop.\<close>

definition parallel3_run ::
  "(error + 'a) list \<Rightarrow> (error + 'b) list \<Rightarrow> (error + 'd) list \<Rightarrow> ('a, 'b, 'd) parallel" where
  "parallel3_run t0 t1 t2 =
     (let s0 = \<lparr>live = True, completed = 0, results = (None, None, None), final = [], thrown = []\<rparr>;
          s1 = task (\<lambda>v (a, b, d). (Some v, b, d)) s0 t0;
          s2 = task (\<lambda>v (a, b, d). (a, Some v, d)) s1 t1;
          s3 = task (\<lambda>v (a, b, d). (a, b, Some v)) s2 t2
      in s3)"

definition parallel3 ::
  "(error + 'a) list \<Rightarrow> (error + 'b) list \<Rightarrow> (error + 'd) list \<Rightarrow>
   (error + 'a option \<times> 'b option \<times> 'd option) list" where
  "parallel3 t0 t1 t2 = final (parallel3_run t0 t1 t2)"

definition parallel3_thrown ::
  "(error + 'a) list \<Rightarrow> (error + 'b) list \<Rightarrow> (error + 'd) list \<Rightarrow> error list" where
  "parallel3_thrown t0 t1 t2 = thrown (parallel3_run t0 t1 t2)"

text \<open>\<^verbatim>\<open>compact\<close> of underscore removes the falsy elements; of \<^verbatim>\<open>undefined\<close> it is the
  empty array.\<close>

definition compact :: "'a option list \<Rightarrow> 'a list" where
  "compact xs = concat (map (\<lambda>x. case x of None \<Rightarrow> [] | Some v \<Rightarrow> [v]) xs)"

definition compact_result :: "'a option list option \<Rightarrow> 'a list" where
  "compact_result r = (case r of None \<Rightarrow> [] | Some xs \<Rightarrow> compact xs)"

subsection \<open>The module state\<close>

text \<open>
  The store object: its directory, its users and groups (addresses of the heap) and its
  layers. The state of the module: the variable \<^verbatim>\<open>store\<close> (\<open>None\<close> while it is
  \<^verbatim>\<open>undefined\<close>), the heap of user and of group objects (an address is an index), the
  \<^verbatim>\<open>members\<close> property of the runtime's built-in objects, and one entry per watcher
  started by \<^verbatim>\<open>initialize\<close>, with the \<^verbatim>\<open>ready\<close> flag of that call.
  In \<open>user\<close> objects a reference \<open>Obj a\<close> is a group at \<open>a\<close> of \<open>groupHeap\<close>; in a
  layer it is a user at \<open>a\<close> of \<open>userHeap\<close>. An address held by a store is allocated:
  see \<open>load_allocated\<close> below.
\<close>

record data_store =
  store_dir :: string
  store_users :: "addr list"
  store_groups :: "addr list"
  store_layers :: "layer list"

record watch =
  watch_dir :: string
  ready :: bool

record state =
  store :: "data_store option"
  userHeap :: "user list"
  groupHeap :: "group list"
  builtinMembers :: "string \<Rightarrow> member list option"
  watches :: "watch list"

subsection \<open>Reference Resolver: buildDataStore\<close>

text \<open>
  The names every object created by \<^verbatim>\<open>{}\<close> inherits from \<^verbatim>\<open>Object.prototype\<close>, each
  bound to a function of the runtime. The accessor \<^verbatim>\<open>__proto__\<close> is left out of the
  model: that key is treated like any other name.
\<close>

definition objectPrototypeProps :: "string list" where
  "objectPrototypeProps =
     [''constructor'', ''toString'', ''toLocaleString'', ''valueOf'', ''hasOwnProperty'',
      ''isPrototypeOf'', ''propertyIsEnumerable'', ''__defineGetter__'', ''__defineSetter__'',
      ''__lookupGetter__'', ''__lookupSetter__'']"

text \<open>A value used as a property name: \<^verbatim>\<open>undefined\<close> is the name \<open>undefined\<close>, an object
  is \<open>[object Object]\<close>, a function is its source text.\<close>

definition prop_key :: "string option \<Rightarrow> string" where
  "prop_key v = (case v of None \<Rightarrow> ''undefined'' | Some s \<Rightarrow> s)"

definition ref_key :: "ref \<Rightarrow> string" where
  "ref_key r =
     (case r of
        Obj a \<Rightarrow> ''[object Object]''
      | Builtin k \<Rightarrow>
          ''function '' @ (if k = ''constructor'' then ''Object'' else k) @ ''() { [native code] }'')"

definition primary_key :: "primary \<Rightarrow> string" where
  "primary_key p = (case p of RawPrimary v \<Rightarrow> prop_key v | PrimaryRef r \<Rightarrow> ref_key r)"

text \<open>The index objects \<^verbatim>\<open>groups\<close> and \<^verbatim>\<open>users\<close>: the own properties, assigned in the
  order of the array, a later assignment replacing an earlier one.\<close>

definition index_by ::
  "('o \<Rightarrow> string option) \<Rightarrow> 'o list \<Rightarrow> addr list \<Rightarrow> string \<Rightarrow> addr option" where
  "index_by key heap as = foldl (\<lambda>m a. m(prop_key (key (heap ! a)) \<mapsto> a)) (\<lambda>k. None) as"

text \<open>A property read \<^verbatim>\<open>groups[k]\<close> or \<^verbatim>\<open>users[k]\<close>: the own property, else the inherited
  one, else \<^verbatim>\<open>undefined\<close> (\<open>None\<close>). Every value found is truthy.\<close>

definition lookup :: "(string \<Rightarrow> addr option) \<Rightarrow> string \<Rightarrow> ref option" where
  "lookup idx k =
     (case idx k of
        Some a \<Rightarrow> Some (Obj a)
      | None \<Rightarrow> if k \<in> set objectPrototypeProps then Some (Builtin k) else None)"

text \<open>\<^verbatim>\<open>uniq\<close> of underscore keeps the first occurrence of every element.\<close>

definition uniq :: "'a list \<Rightarrow> 'a list" where
  "uniq xs = foldl (\<lambda>seen x. if x \<in> set seen then seen else seen @ [x]) [] xs"

text \<open>The property names \<^verbatim>\<open>u.uniq(user.groups||[])\<close> is mapped over.\<close>

definition group_keys :: "user_groups \<Rightarrow> string list" where
  "group_keys g =
     (case g of
        GroupIds None \<Rightarrow> []
      | GroupIds (Some ids) \<Rightarrow> uniq ids
      | GroupRefs rs \<Rightarrow> map ref_key (uniq rs))"

text \<open>\<^verbatim>\<open>group.members\<close>, for a group record of the heap or a built-in object.\<close>

definition members_of :: "state \<Rightarrow> ref \<Rightarrow> member list option" where
  "members_of st r =
     (case r of
        Obj a \<Rightarrow> members (groupHeap st ! a)
      | Builtin k \<Rightarrow> builtinMembers st k)"

text \<open>\<^verbatim>\<open>if ( !group.members ) group.members = []; group.members.push(user)\<close>\<close>

definition add_member :: "addr \<Rightarrow> ref \<Rightarrow> state \<Rightarrow> state" where
  "add_member u r st =
     (let ms = (case members_of st r of None \<Rightarrow> [] | Some ms \<Rightarrow> ms) @ [MemberUser u] in
      case r of
        Obj a \<Rightarrow> st\<lparr>groupHeap := (groupHeap st)[a := (groupHeap st ! a)\<lparr>members := Some ms\<rparr>]\<rparr>
      | Builtin k \<Rightarrow> st\<lparr>builtinMembers := (builtinMembers st)(k := Some ms)\<rparr>)"

text \<open>The function mapped over a user's group names, for the user at address \<open>u\<close>: the
  state and the array built so far are passed along.\<close>

definition resolve_group ::
  "(string \<Rightarrow> addr option) \<Rightarrow> addr \<Rightarrow> state \<times> ref option list \<Rightarrow> string \<Rightarrow> state \<times> ref option list" where
  "resolve_group gidx u acc gid =
     (case lookup gidx gid of
        None \<Rightarrow> (fst acc, snd acc @ [None])
      | Some r \<Rightarrow> (add_member u r (fst acc), snd acc @ [Some r]))"

text \<open>The body of the first \<^verbatim>\<open>store.users.forEach\<close> of the fix-up, for the user at \<open>u\<close>.\<close>

definition resolve_user :: "(string \<Rightarrow> addr option) \<Rightarrow> state \<Rightarrow> addr \<Rightarrow> state" where
  "resolve_user gidx st u =
     (let user = userHeap st ! u;
          st1 = (case lookup gidx (primary_key (primaryGroup user)) of
                   Some r \<Rightarrow> st\<lparr>userHeap := (userHeap st)[u := user\<lparr>primaryGroup := PrimaryRef r\<rparr>]\<rparr>
                 | None \<Rightarrow> st);
          acc = foldl (resolve_group gidx u) (st1, []) (group_keys (groups user));
          st2 = fst acc
      in st2\<lparr>userHeap := (userHeap st2)[u := (userHeap st2 ! u)\<lparr>groups := GroupRefs (compact (snd acc))\<rparr>]\<rparr>)"

definition layer_keys :: "layer_users \<Rightarrow> string list" where
  "layer_keys us = (case us of UserIds ids \<Rightarrow> map prop_key ids | UserRefs rs \<Rightarrow> map ref_key rs)"

definition resolve_layer :: "(string \<Rightarrow> addr option) \<Rightarrow> layer \<Rightarrow> layer" where
  "resolve_layer uidx layer =
     layer\<lparr>layer_users := UserRefs (compact (map (lookup uidx) (layer_keys (layer_users layer))))\<rparr>"

definition buildDataStore :: "data_store \<Rightarrow> state \<Rightarrow> data_store \<times> state" where
  "buildDataStore s st =
     (let gidx = index_by group_cn (groupHeap st) (store_groups s);
          uidx = index_by uid (userHeap st) (store_users s);
          st' = foldl (resolve_user gidx) st (store_users s)
      in (s\<lparr>store_layers := map (resolve_layer uidx) (store_layers s)\<rparr>, st'))"

subsection \<open>load\<close>

text \<open>
  The final callback of \<^verbatim>\<open>async.parallel\<close> in \<^verbatim>\<open>load\<close>. With an error, the callback of
  \<^verbatim>\<open>load\<close> gets it and nothing else happens. Otherwise the records the parser has made
  are the new objects of the heap (allocated here, at fresh addresses),
  \<^verbatim>\<open>buildDataStore\<close> resolves them, the variable \<^verbatim>\<open>store\<close> is assigned and the callback
  gets the store.
\<close>

definition loaded ::
  "string \<Rightarrow> state \<times> (error + data_store) list \<Rightarrow>
   error + group option list option \<times> user option list option \<times> layer list option \<Rightarrow>
   state \<times> (error + data_store) list" where
  "loaded dir acc ev =
     (case ev of
        Inl err \<Rightarrow> (fst acc, snd acc @ [Inl err])
      | Inr r \<Rightarrow>
          (case r of (r0, r1, r2) \<Rightarrow>
             (let st = fst acc;
                  us = compact_result r1;
                  gs = compact_result r0;
                  ls = (case r2 of None \<Rightarrow> [] | Some ls \<Rightarrow> ls);
                  st1 = st\<lparr>userHeap := userHeap st @ us, groupHeap := groupHeap st @ gs\<rparr>;
                  built = buildDataStore
                    \<lparr>store_dir = dir,
                     store_users = [length (userHeap st)..<length (userHeap st) + length us],
                     store_groups = [length (groupHeap st)..<length (groupHeap st) + length gs],
                     store_layers = ls\<rparr> st1
              in ((snd built)\<lparr>store := Some (fst built)\<rparr>, snd acc @ [Inr (fst built)]))))"

text \<open>\<open>load e dir st\<close>: the state after the load and the invocations of its callback.\<close>

definition load :: "env \<Rightarrow> string \<Rightarrow> state \<Rightarrow> state \<times> (error + data_store) list" where
  "load e dir st =
     foldl (loaded dir) (st, []) (parallel3 (loadGroups e dir) (loadUsers e dir) (loadLayers e dir))"

text \<open>The exceptions a load throws to the event loop: those of \<^verbatim>\<open>async.parallel\<close>, for a
  loader that invokes its callback again.\<close>

definition load_thrown :: "env \<Rightarrow> string \<Rightarrow> error list" where
  "load_thrown e dir = parallel3_thrown (loadGroups e dir) (loadUsers e dir) (loadLayers e dir)"

subsection \<open>Store Snapshot and Reload Controller: initialize\<close>

text \<open>\<open>initialize dir st\<close>: the state after the call returns and the invocations of its
  callback so far. The watcher started is the new last entry of \<open>watches\<close>.\<close>

definition initialize :: "string \<Rightarrow> state \<Rightarrow> state \<times> (error + unit) list" where
  "initialize dir st =
     (if store st \<noteq> None then (st, [Inl (Message ''data store is already initialized'')])
      else (st\<lparr>watches := watches st @ [\<lparr>watch_dir = dir, ready = False\<rparr>]\<rparr>, []))"

text \<open>The handler of the watcher's \<^verbatim>\<open>ready\<close> event, for the watcher at index \<open>w\<close>: the load
  and the callback given to it, which reports to the callback of \<^verbatim>\<open>initialize\<close>.\<close>

definition ready_loaded ::
  "nat \<Rightarrow> state \<times> (error + unit) list \<Rightarrow> error + data_store \<Rightarrow> state \<times> (error + unit) list" where
  "ready_loaded w acc ev =
     (case ev of
        Inl err \<Rightarrow> (fst acc, snd acc @ [Inl err])
      | Inr s \<Rightarrow>
          ((fst acc)\<lparr>watches := (watches (fst acc))[w := (watches (fst acc) ! w)\<lparr>ready := True\<rparr>]\<rparr>,
           snd acc @ [Inr ()]))"

definition on_ready :: "env \<Rightarrow> nat \<Rightarrow> state \<Rightarrow> state \<times> (error + unit) list" where
  "on_ready e w st =
     (if w < length (watches st) then
        (let l = load e (watch_dir (watches st ! w)) st
         in foldl (ready_loaded w) (fst l, []) (snd l))
      else (st, []))"

definition on_ready_thrown :: "env \<Rightarrow> nat \<Rightarrow> state \<Rightarrow> error list" where
  "on_ready_thrown e w st =
     (if w < length (watches st) then load_thrown e (watch_dir (watches st ! w)) else [])"

text \<open>The handler of the watcher's \<^verbatim>\<open>all\<close> event: nothing before \<^verbatim>\<open>ready\<close> is set, a load
  afterwards, whose error is given to \<^verbatim>\<open>log.err\<close>: that call only logs, as the
  specification says of a failed reload (the logger is not among the source files).\<close>

definition on_all :: "env \<Rightarrow> nat \<Rightarrow> state \<Rightarrow> state" where
  "on_all e w st =
     (if w < length (watches st) then
        (if \<not> ready (watches st ! w) then st
         else fst (load e (watch_dir (watches st ! w)) st))
      else st)"

definition on_all_thrown :: "env \<Rightarrow> nat \<Rightarrow> state \<Rightarrow> error list" where
  "on_all_thrown e w st =
     (if w < length (watches st) \<and> ready (watches st ! w)
      then load_thrown e (watch_dir (watches st ! w)) else [])"

text \<open>The state when the module is loaded.\<close>

definition initial :: state where
  "initial = \<lparr>store = None, userHeap = [], groupHeap = [], builtinMembers = (\<lambda>k. None), watches = []\<rparr>"

subsection \<open>Query Facade\<close>

text \<open>\<^verbatim>\<open>u.find\<close> over \<^verbatim>\<open>store.users\<close>; reading \<^verbatim>\<open>store.users\<close> while \<^verbatim>\<open>store\<close> is
  \<^verbatim>\<open>undefined\<close> throws.\<close>

definition findUser :: "state \<Rightarrow> string \<Rightarrow> error + addr option" where
  "findUser st i =
     (case store st of
        None \<Rightarrow> Inl (TypeError ''Cannot read property users of undefined'')
      | Some s \<Rightarrow> Inr (find (\<lambda>a. uid (userHeap st ! a) = Some i) (store_users s)))"

text \<open>The value is \<^verbatim>\<open>null\<close> (\<open>Inr None\<close>) or the key list of the user found.\<close>

definition publicKeys :: "state \<Rightarrow> string \<Rightarrow> error + string list option" where
  "publicKeys st i =
     (case findUser st i of
        Inl err \<Rightarrow> Inl err
      | Inr None \<Rightarrow> Inr None
      | Inr (Some a) \<Rightarrow> Inr (Some (user_publicKeys (userHeap st ! a))))"

text \<open>\<^verbatim>\<open>toUpperCase\<close> on the letters a to z; other characters are kept.\<close>

definition toUpperCase :: "string \<Rightarrow> string" where
  "toUpperCase s =
     map (\<lambda>ch. if 97 \<le> (of_char ch :: nat) \<and> (of_char ch :: nat) \<le> 122
               then char_of ((of_char ch :: nat) - 32) else ch) s"

text \<open>\<open>authenticate penv layer credential\<close>: the one invocation of the callback, with the
  error or with the password. \<open>penv\<close> is \<^verbatim>\<open>process.env\<close>; a string is truthy when it is
  not empty.\<close>

definition authenticate :: "(string \<Rightarrow> string option) \<Rightarrow> string \<Rightarrow> string \<Rightarrow> error + string" where
  "authenticate penv layer credential =
     (case penv (''LDAP_LAYER_'' @ toUpperCase layer @ ''_PASSWORD'') of
        None \<Rightarrow> Inl (InvalidCredentialsError (''Invalid login for layer '' @ layer))
      | Some password \<Rightarrow>
          if password \<noteq> [] \<and> credential = password then Inr password
          else Inl (InvalidCredentialsError (''Invalid login for layer '' @ layer)))"

subsection \<open>Functions used in the statements\<close>

text \<open>Over the entries of a listing: the errors reported to the callback, in order; the
  values accumulated, in order; whether every entry is accumulated.\<close>

definition reported ::
  "fs \<Rightarrow> string \<Rightarrow> (string \<times> string option \<Rightarrow> error + 'r) \<Rightarrow> string list \<Rightarrow> (error + 'r list) list" where
  "reported f dir fn entries =
     concat (map (\<lambda>x. case entry_outcome f dir fn x of Reports e \<Rightarrow> [Inl e] | Yields v \<Rightarrow> [] | Ignored \<Rightarrow> []) entries)"

definition yielded ::
  "fs \<Rightarrow> string \<Rightarrow> (string \<times> string option \<Rightarrow> error + 'r) \<Rightarrow> string list \<Rightarrow> 'r list" where
  "yielded f dir fn entries =
     concat (map (\<lambda>x. case entry_outcome f dir fn x of Reports e \<Rightarrow> [] | Yields v \<Rightarrow> [v] | Ignored \<Rightarrow> []) entries)"

definition all_yield ::
  "fs \<Rightarrow> string \<Rightarrow> (string \<times> string option \<Rightarrow> error + 'r) \<Rightarrow> string list \<Rightarrow> bool" where
  "all_yield f dir fn entries =
     list_all (\<lambda>x. case entry_outcome f dir fn x of Reports e \<Rightarrow> False | Yields v \<Rightarrow> True | Ignored \<Rightarrow> False) entries"

text \<open>Over the invocations of a callback: the errors passed; the result, when the callback
  is invoked exactly once and with a result; and the two shapes the callback of a loader
  takes: one result, or errors only (possibly none).\<close>

definition errors_of :: "(error + 'a) list \<Rightarrow> error list" where
  "errors_of evs = concat (map (\<lambda>ev. case ev of Inl e \<Rightarrow> [e] | Inr v \<Rightarrow> []) evs)"

definition success :: "(error + 'a) list \<Rightarrow> 'a option" where
  "success evs = (case evs of [Inr r] \<Rightarrow> Some r | _ \<Rightarrow> None)"

definition shaped :: "(error + 'a) list \<Rightarrow> bool" where
  "shaped evs = ((\<exists>r. evs = [Inr r]) \<or> (\<forall>ev\<in>set evs. isl ev))"

text \<open>Over the layers of the second phase of \<^verbatim>\<open>loadLayers\<close>: the directory scanned for a
  layer; the layer once its scan is over; whether the scan of a layer delivers a result;
  the errors the scans report.\<close>

definition layer_path :: "string \<Rightarrow> layer \<Rightarrow> string" where
  "layer_path dir layer = join ''/'' [dir, ''layers'', layer_id layer]"

definition filled :: "fs \<Rightarrow> string \<Rightarrow> layer \<Rightarrow> layer" where
  "filled f dir layer = layer\<lparr>layer_users := UserIds (pushed f (layer_path dir layer) member_transform)\<rparr>"

definition layer_ok :: "fs \<Rightarrow> string \<Rightarrow> layer \<Rightarrow> bool" where
  "layer_ok f dir layer = (success (loadDir f (layer_path dir layer) member_transform) \<noteq> None)"

definition layer_errors :: "fs \<Rightarrow> string \<Rightarrow> layer list \<Rightarrow> error list" where
  "layer_errors f dir ls = concat (map (\<lambda>layer. errors_of (loadDir f (layer_path dir layer) member_transform)) ls)"

text \<open>Over the heap: the groups a user refers to once resolved; whether the \<^verbatim>\<open>members\<close> of a
  group (or built-in object) hold the user at \<open>u\<close>; whether a reference is to an object of
  the heap; whether every group the user at \<open>u\<close> refers to holds that user.\<close>

definition resolved_groups :: "user \<Rightarrow> ref list" where
  "resolved_groups user = (case groups user of GroupRefs rs \<Rightarrow> rs | GroupIds ids \<Rightarrow> [])"

definition has_member :: "state \<Rightarrow> ref \<Rightarrow> addr \<Rightarrow> bool" where
  "has_member st r u = (case members_of st r of None \<Rightarrow> False | Some ms \<Rightarrow> MemberUser u \<in> set ms)"

definition allocated :: "state \<Rightarrow> ref \<Rightarrow> bool" where
  "allocated st r = (case r of Obj a \<Rightarrow> a < length (groupHeap st) | Builtin k \<Rightarrow> True)"

definition linked :: "state \<Rightarrow> addr \<Rightarrow> bool" where
  "linked st u = (\<forall>r\<in>set (resolved_groups (userHeap st ! u)). has_member st r u)"

text \<open>Whether a reference is to one of the given objects of the heap, or to a built-in
  object under an inherited name; whether the primary group of a user, if resolved, is
  such a reference; whether the groups of a user are resolved, to such references.\<close>

definition own_or_builtin :: "addr list \<Rightarrow> ref \<Rightarrow> bool" where
  "own_or_builtin as r = (case r of Obj a \<Rightarrow> a \<in> set as | Builtin k \<Rightarrow> k \<in> set objectPrototypeProps)"

definition primary_ok :: "addr list \<Rightarrow> user \<Rightarrow> bool" where
  "primary_ok gs user = (case primaryGroup user of RawPrimary v \<Rightarrow> True | PrimaryRef r \<Rightarrow> own_or_builtin gs r)"

definition groups_ok :: "addr list \<Rightarrow> user \<Rightarrow> bool" where
  "groups_ok gs user = (case groups user of GroupIds ids \<Rightarrow> False | GroupRefs rs \<Rightarrow> list_all (own_or_builtin gs) rs)"

subsection \<open>Example environments\<close>

text \<open>A process environment in which the password of layer \<open>prod\<close> is set and empty.\<close>

definition prod_env :: "string \<Rightarrow> string option" where
  "prod_env k = (if k = ''LDAP_LAYER_PROD_PASSWORD'' then Some [] else None)"

text \<open>
  A tree under \<open>root\<close>: two users, three group files (one of them empty) and the layer
  \<open>prod\<close> with two links. The parser stands for \<^verbatim>\<open>yaml.safeLoad\<close> on the contents of
  these files: the empty text is the \<^verbatim>\<open>null\<close> document, any other text does not parse.
\<close>

definition tree_fs :: fs where
  "tree_fs =
     \<lparr>readdir = (\<lambda>p.
         if p = ''root/users'' then Inr [''bob.yaml'', ''alice.smith.yaml'']
         else if p = ''root/groups'' then Inr [''staff.yaml'', ''admin.yaml'', ''empty.yaml'']
         else if p = ''root/layers'' then Inr [''prod'']
         else if p = ''root/layers/prod'' then Inr [''bob.lnk'', ''ghost.lnk'']
         else Inl (FsError ''ENOENT'')),
       lstat = (\<lambda>p.
         if p = ''root/layers/prod'' then Inr Directory
         else if p = ''root/layers/prod/bob.lnk'' \<or> p = ''root/layers/prod/ghost.lnk''
           then Inr SymbolicLink
         else Inr RegularFile),
       readFile = (\<lambda>p.
         if p = ''root/users/bob.yaml'' then Inr ''bob''
         else if p = ''root/users/alice.smith.yaml'' then Inr ''alice''
         else if p = ''root/groups/staff.yaml'' then Inr ''staff''
         else if p = ''root/groups/admin.yaml'' then Inr ''admin''
         else if p = ''root/groups/empty.yaml'' then Inr ''''
         else Inl (FsError ''ENOENT''))\<rparr>"

definition tree_parser :: parser where
  "tree_parser contents =
     (if contents = Some ''bob'' then
        Inr (Some \<lparr>y_publicKeys = Some [''ssh-rsa AAAA''], y_primaryGroup = Some ''staff'',
                   y_groups = Some [''staff'', ''admin'', ''staff'', ''nogroup''],
                   y_gidNumber = None, y_members = None\<rparr>)
      else if contents = Some ''alice'' then
        Inr (Some \<lparr>y_publicKeys = None, y_primaryGroup = Some ''wheel'',
                   y_groups = Some [''admin''], y_gidNumber = None, y_members = None\<rparr>)
      else if contents = Some ''staff'' then
        Inr (Some \<lparr>y_publicKeys = None, y_primaryGroup = None, y_groups = None,
                   y_gidNumber = Some 100, y_members = None\<rparr>)
      else if contents = Some ''admin'' then
        Inr (Some \<lparr>y_publicKeys = None, y_primaryGroup = None, y_groups = None,
                   y_gidNumber = Some 101, y_members = None\<rparr>)
      else if contents = Some ''mallory'' then
        Inr (Some \<lparr>y_publicKeys = None, y_primaryGroup = Some ''constructor'',
                   y_groups = Some [''staff'', ''toString''], y_gidNumber = None, y_members = None\<rparr>)
      else if contents = Some [] then Inr None
      else Inl (YAMLException ''bad''))"

definition tree_env :: env where
  "tree_env = \<lparr>files = tree_fs, safeLoad = tree_parser\<rparr>"

text \<open>The store the load of that tree delivers, and the state once \<^verbatim>\<open>initialize\<close> has been
  called on it and the watcher has signalled \<^verbatim>\<open>ready\<close>.\<close>

definition tree_store :: data_store where
  "tree_store =
     \<lparr>store_dir = ''root'', store_users = [0, 1], store_groups = [0, 1],
      store_layers = [\<lparr>layer_id = ''prod'', layer_users = UserRefs [Obj 0]\<rparr>]\<rparr>"

definition served :: state where
  "served = fst (on_ready tree_env 0 (fst (initialize ''root'' initial)))"

text \<open>The same tree after a change: the file of user \<open>bob\<close> does not parse any more.\<close>

definition malformed_user_env :: env where
  "malformed_user_env =
     tree_env\<lparr>files := tree_fs\<lparr>readFile := (readFile tree_fs)(''root/users/bob.yaml'' := Inr ''{'')\<rparr>\<rparr>"

text \<open>The same tree after a change that leaves both user files unparsable.\<close>

definition two_malformed_env :: env where
  "two_malformed_env =
     tree_env\<lparr>files := tree_fs\<lparr>readFile := (readFile tree_fs)
        (''root/users/bob.yaml'' := Inr ''{'', ''root/users/alice.smith.yaml'' := Inr ''{'')\<rparr>\<rparr>"

text \<open>The same tree with a group file that does not parse.\<close>

definition malformed_group_env :: env where
  "malformed_group_env =
     tree_env\<lparr>files := tree_fs\<lparr>readFile := (readFile tree_fs)(''root/groups/staff.yaml'' := Inr ''{'')\<rparr>\<rparr>"

text \<open>A directory \<open>d\<close> whose only entry is a FIFO.\<close>

definition pipe_fs :: fs where
  "pipe_fs =
     \<lparr>readdir = (\<lambda>p. if p = ''d'' then Inr [''pipe''] else Inl (FsError ''ENOENT'')),
      lstat = (\<lambda>p. if p = ''d/pipe'' then Inr OtherKind else Inl (FsError ''ENOENT'')),
      readFile = (\<lambda>p. Inl (FsError ''ENOENT''))\<rparr>"

text \<open>The tree with an empty \<open>users\<close> directory; and the same with, in addition, a
  \<open>groups\<close> directory that cannot be listed.\<close>

definition empty_users_env :: env where
  "empty_users_env =
     tree_env\<lparr>files := tree_fs\<lparr>readdir := (readdir tree_fs)(''root/users'' := Inr [])\<rparr>\<rparr>"

definition unreadable_groups_env :: env where
  "unreadable_groups_env =
     tree_env\<lparr>files := tree_fs\<lparr>readdir := (readdir tree_fs)
        (''root/users'' := Inr [], ''root/groups'' := Inl (FsError ''EACCES''))\<rparr>\<rparr>"

text \<open>A tree whose only user names the primary group \<open>constructor\<close> and the groups
  \<open>staff\<close> and \<open>toString\<close>, and whose layer \<open>prod\<close> has the links \<open>mallory.lnk\<close> and
  \<open>valueOf.lnk\<close>. No group file and no user file has one of these three names.\<close>

definition inherited_env :: env where
  "inherited_env =
     tree_env\<lparr>files := tree_fs
       \<lparr>readdir := (readdir tree_fs)
          (''root/users'' := Inr [''mallory.yaml''],
           ''root/layers/prod'' := Inr [''mallory.lnk'', ''valueOf.lnk'']),
        lstat := (lstat tree_fs)
          (''root/layers/prod/mallory.lnk'' := Inr SymbolicLink,
           ''root/layers/prod/valueOf.lnk'' := Inr SymbolicLink),
        readFile := (readFile tree_fs)(''root/users/mallory.yaml'' := Inr ''mallory'')\<rparr>\<rparr>"

section \<open>Properties\<close>

subsection \<open>Strings and fileUid\<close>

lemma split_not_empty: "split sep s \<noteq> []"
  by (induction s) (auto split: list.splits)

lemma split_no_sep: "sep \<notin> set s \<Longrightarrow> split sep s = [s]"
  by (induction s) auto

lemma split_append_sep:
  "sep \<notin> set t \<Longrightarrow> split sep (s @ sep # t) = split sep s @ [t]"
  by (induction s) (auto simp: split_no_sep split_not_empty split: list.splits)

lemma join_split: "join [sep] (split sep s) = s"
proof (induction s)
  case Nil
  show ?case by simp
next
  case (Cons x s)
  show ?case
  proof (cases "split sep s")
    case Nil
    then show ?thesis using split_not_empty by blast
  next
    case (Cons t ts)
    with Cons.IH show ?thesis by (cases ts) auto
  qed
qed

text \<open>The branch of \<open>fileUid\<close> for an empty token array is never taken.\<close>

lemma fileUid_defined: "fileUid filename \<noteq> None"
  by (simp add: fileUid_def Let_def split_not_empty)

text \<open>A name with a dot loses exactly its last segment.\<close>

lemma fileUid_strips_last:
  "CHR ''.'' \<notin> set ext \<Longrightarrow> fileUid (stem @ ''.'' @ ext) = Some stem"
  by (simp add: fileUid_def split_append_sep slice_but_last_def split_not_empty join_split Let_def)

lemma fileUid_examples:
  "fileUid ''alice.yaml'' = Some ''alice''" "fileUid ''alice.smith.yaml'' = Some ''alice.smith''"
  by (simp_all add: fileUid_def slice_but_last_def)

text \<open>A name without a dot is a single token, and all tokens but the last are none: the
  uid is the empty string, whatever the name.\<close>

lemma fileUid_no_dot: "CHR ''.'' \<notin> set filename \<Longrightarrow> fileUid filename = Some []"
  by (simp add: fileUid_def split_no_sep slice_but_last_def)

text \<open>
  C4 (filename to id). The first half of the claim holds (\<open>fileUid_strips_last\<close>,
  \<open>fileUid_examples\<close>). The second half does not: for the file name \<open>alice\<close>, which
  contains no dot, \<open>fileUid\<close> gives the empty string and not \<open>alice\<close>. The test
  \<^verbatim>\<open>tokens.length === 0\<close> that guards \<^verbatim>\<open>return tokens[0]\<close> is never true.
\<close>

theorem fileUid_alice: "fileUid ''alice'' = Some []"
  by (simp add: fileUid_def slice_but_last_def)

subsection \<open>Record Loader\<close>

text \<open>The step of \<open>loadDir\<close> for one entry, by the outcome of the entry.\<close>

lemma per_entry_outcome:
  "per_entry f dir fn st x =
     (case entry_outcome f dir fn x of
        Reports e \<Rightarrow> st\<lparr>calls := calls st @ [Inl e]\<rparr>
      | Yields v \<Rightarrow>
          (if c st = 1 then st\<lparr>result := result st @ [v], c := 0, calls := calls st @ [Inr (result st @ [v])]\<rparr>
           else st\<lparr>result := result st @ [v], c := c st - 1\<rparr>)
      | Ignored \<Rightarrow> st)"
  by (cases "lstat f (join ''/'' [dir, x])"; cases "readFile f (join ''/'' [dir, x])")
     (auto simp: per_entry_def entry_outcome_def accumulate_def Let_def split: sum.splits kind.splits)

lemma per_entry_Reports:
  "entry_outcome f dir fn x = Reports e \<Longrightarrow> per_entry f dir fn st x = st\<lparr>calls := calls st @ [Inl e]\<rparr>"
  by (simp add: per_entry_outcome)

lemma per_entry_Ignored:
  "entry_outcome f dir fn x = Ignored \<Longrightarrow> per_entry f dir fn st x = st"
  by (simp add: per_entry_outcome)

lemma per_entry_Yields:
  "entry_outcome f dir fn x = Yields v \<Longrightarrow>
   per_entry f dir fn st x =
     (if c st = 1 then st\<lparr>result := result st @ [v], c := 0, calls := calls st @ [Inr (result st @ [v])]\<rparr>
      else st\<lparr>result := result st @ [v], c := c st - 1\<rparr>)"
  by (simp add: per_entry_outcome)

text \<open>While the counter is above the number of entries left it cannot reach zero: the run
  only collects values and errors. From a counter equal to the number of entries left,
  the result is delivered exactly when every entry is accumulated and there is at least
  one; otherwise the callback gets the errors reported, one invocation each.\<close>

lemma run_above:
  "int (length xs) < c st \<Longrightarrow>
   foldl (per_entry f dir fn) st xs =
     st\<lparr>result := result st @ yielded f dir fn xs,
        c := c st - int (length (yielded f dir fn xs)),
        calls := calls st @ reported f dir fn xs\<rparr>"
proof (induction xs arbitrary: st)
  case Nil
  show ?case by (simp add: yielded_def reported_def)
next
  case (Cons x xs)
  show ?case
  proof (cases "entry_outcome f dir fn x")
    case (Reports e)
    with Cons.prems Cons.IH [of "st\<lparr>calls := calls st @ [Inl e]\<rparr>"] show ?thesis
      by (simp add: per_entry_Reports yielded_def reported_def)
  next
    case (Yields v)
    with Cons.prems Cons.IH [of "st\<lparr>result := result st @ [v], c := c st - 1\<rparr>"] show ?thesis
      by (simp add: per_entry_Yields yielded_def reported_def)
  next
    case Ignored
    with Cons.prems Cons.IH [of st] show ?thesis
      by (simp add: per_entry_Ignored yielded_def reported_def)
  qed
qed

lemma all_yield_reported: "all_yield f dir fn xs \<Longrightarrow> reported f dir fn xs = []"
  by (induction xs) (auto simp: all_yield_def reported_def split: entry_outcome.splits)

lemma run_exact:
  "c st = int (length xs) \<Longrightarrow>
   calls (foldl (per_entry f dir fn) st xs) =
     calls st @ (if xs \<noteq> [] \<and> all_yield f dir fn xs then [Inr (result st @ yielded f dir fn xs)]
                 else reported f dir fn xs)"
proof (induction xs arbitrary: st)
  case Nil
  show ?case by (simp add: reported_def)
next
  case (Cons x xs)
  show ?case
  proof (cases "entry_outcome f dir fn x")
    case (Reports e)
    with Cons.prems run_above [of xs "st\<lparr>calls := calls st @ [Inl e]\<rparr>" f dir fn] show ?thesis
      by (simp add: per_entry_Reports all_yield_def reported_def)
  next
    case Ignored
    with Cons.prems run_above [of xs st f dir fn] show ?thesis
      by (simp add: per_entry_Ignored all_yield_def reported_def)
  next
    case (Yields v)
    show ?thesis
    proof (cases xs)
      case Nil
      with Yields Cons.prems show ?thesis
        by (simp add: per_entry_Yields all_yield_def yielded_def reported_def)
    next
      case (Cons y ys)
      with Yields Cons.prems Cons.IH [of "st\<lparr>result := result st @ [v], c := c st - 1\<rparr>"]
      show ?thesis
        by (simp add: per_entry_Yields all_yield_def yielded_def reported_def)
    qed
  qed
qed

lemma run_result:
  "result (foldl (per_entry f dir fn) st xs) = result st @ yielded f dir fn xs"
proof (induction xs arbitrary: st)
  case Nil
  show ?case by (simp add: yielded_def)
next
  case (Cons x xs)
  show ?case
    by (cases "entry_outcome f dir fn x")
       (simp_all add: Cons.IH per_entry_Reports per_entry_Yields per_entry_Ignored yielded_def)
qed

text \<open>The invocations of the callback of \<open>loadDir\<close>, in closed form.\<close>

lemma loadDir_calls:
  "loadDir f dir fn =
     (case readdir f dir of
        Inl err \<Rightarrow> [Inl err]
      | Inr entries \<Rightarrow>
          if entries \<noteq> [] \<and> all_yield f dir fn entries then [Inr (yielded f dir fn entries)]
          else reported f dir fn entries)"
  by (simp add: loadDir_def loadDir_run_def run_exact split: sum.splits)

lemma pushed_yielded:
  "pushed f dir fn = (case readdir f dir of Inl err \<Rightarrow> [] | Inr entries \<Rightarrow> yielded f dir fn entries)"
  by (simp add: pushed_def loadDir_run_def run_result split: sum.splits)

lemma loadDir_empty: "readdir f dir = Inr [] \<Longrightarrow> loadDir f dir fn = []"
  by (simp add: loadDir_def loadDir_run_def)

lemma reported_isl: "ev \<in> set (reported f dir fn xs) \<Longrightarrow> isl ev"
  by (auto simp: reported_def split: entry_outcome.splits)

lemma entry_reports_iff:
  "entry_outcome f dir fn file = Reports err \<longleftrightarrow>
     lstat f (join ''/'' [dir, file]) = Inl err
     \<or> (lstat f (join ''/'' [dir, file]) = Inr RegularFile
        \<and> (readFile f (join ''/'' [dir, file]) = Inl err
           \<or> (\<exists>contents. readFile f (join ''/'' [dir, file]) = Inr contents
                \<and> fn (file, Some contents) = Inl err)))
     \<or> ((lstat f (join ''/'' [dir, file]) = Inr Directory
         \<or> lstat f (join ''/'' [dir, file]) = Inr SymbolicLink)
        \<and> fn (file, None) = Inl err)"
  by (cases "lstat f (join ''/'' [dir, file])"; cases "readFile f (join ''/'' [dir, file])")
     (auto simp: entry_outcome_def Let_def split: sum.splits)

lemma reported_mem:
  "file \<in> set entries \<Longrightarrow> entry_outcome f dir fn file = Reports err \<Longrightarrow>
   Inl err \<in> set (reported f dir fn entries)"
  by (induction entries) (auto simp: reported_def)

lemma all_yield_mem:
  "all_yield f dir fn entries \<Longrightarrow> file \<in> set entries \<Longrightarrow> \<exists>v. entry_outcome f dir fn file = Yields v"
  by (cases "entry_outcome f dir fn file") (auto simp: all_yield_def list_all_iff)

lemma loadDir_reports:
  assumes "readdir f dir = Inr entries" and "file \<in> set entries"
    and "entry_outcome f dir fn file = Reports err"
  shows "Inl err \<in> set (loadDir f dir fn)" and "\<forall>r. Inr r \<notin> set (loadDir f dir fn)"
proof -
  from assms(2,3) have "\<not> all_yield f dir fn entries"
    using all_yield_mem [of f dir fn entries "file"] by auto
  with assms(1) have l: "loadDir f dir fn = reported f dir fn entries"
    by (simp add: loadDir_calls)
  from assms(2,3) show "Inl err \<in> set (loadDir f dir fn)"
    by (auto simp: l intro: reported_mem)
  show "\<forall>r. Inr r \<notin> set (loadDir f dir fn)"
    by (auto simp: l dest: reported_isl)
qed

text \<open>An entry that is none of regular file, directory or symbolic link is passed over: no
  error is reported for it, and since the counter never reaches zero no result is ever
  delivered. The callback gets the errors of the other entries, if there are any.\<close>

lemma entry_ignored_iff:
  "entry_outcome f dir fn file = Ignored \<longleftrightarrow> lstat f (join ''/'' [dir, file]) = Inr OtherKind"
proof (cases "lstat f (join ''/'' [dir, file])")
  case (Inl err)
  then show ?thesis by (simp add: entry_outcome_def)
next
  case (Inr stats)
  then show ?thesis
    by (cases stats) (simp_all add: entry_outcome_def split: sum.splits)
qed

lemma loadDir_ignored:
  assumes "readdir f dir = Inr entries" and "file \<in> set entries"
    and "entry_outcome f dir fn file = Ignored"
  shows "loadDir f dir fn = reported f dir fn entries" and "\<forall>r. Inr r \<notin> set (loadDir f dir fn)"
proof -
  from assms(2,3) have "\<not> all_yield f dir fn entries"
    using all_yield_mem [of f dir fn entries "file"] by auto
  with assms(1) show l: "loadDir f dir fn = reported f dir fn entries"
    by (simp add: loadDir_calls)
  show "\<forall>r. Inr r \<notin> set (loadDir f dir fn)"
    by (auto simp: l dest: reported_isl)
qed

text \<open>
  The errors of a directory load. When listing the directory fails, the callback is
  invoked once, with that error. When an entry reports an error (its \<^verbatim>\<open>lstat\<close> fails, or
  it is a regular file and reading it fails, or the transform throws on it: see
  \<open>entry_reports_iff\<close>), the callback is invoked with that error. In both cases, and also
  when an entry is of another kind, no result collection, partial or complete, is ever
  delivered.
\<close>

lemma loadDir_fails:
  "(readdir f dir = Inl err \<longrightarrow> loadDir f dir fn = [Inl err])
   \<and> (readdir f dir = Inr entries \<and> file \<in> set entries \<and> entry_outcome f dir fn file = Reports err
        \<longrightarrow> Inl err \<in> set (loadDir f dir fn) \<and> (\<forall>r. Inr r \<notin> set (loadDir f dir fn)))
   \<and> (readdir f dir = Inr entries \<and> file \<in> set entries \<and> lstat f (join ''/'' [dir, file]) = Inr OtherKind
        \<longrightarrow> (\<forall>r. Inr r \<notin> set (loadDir f dir fn)))"
proof (intro conjI impI)
  assume "readdir f dir = Inl err"
  then show "loadDir f dir fn = [Inl err]" by (simp add: loadDir_def)
next
  assume "readdir f dir = Inr entries \<and> file \<in> set entries \<and> entry_outcome f dir fn file = Reports err"
  then show "Inl err \<in> set (loadDir f dir fn)" and "\<forall>r. Inr r \<notin> set (loadDir f dir fn)"
    using loadDir_reports [of f dir entries "file" fn err] by simp_all
next
  assume "readdir f dir = Inr entries \<and> file \<in> set entries \<and> lstat f (join ''/'' [dir, file]) = Inr OtherKind"
  then show "\<forall>r. Inr r \<notin> set (loadDir f dir fn)"
    using loadDir_ignored(2) [of f dir entries "file" fn] by (simp add: entry_ignored_iff)
qed

lemma loadDir_fails_examples:
  "loadDir tree_fs ''root/nowhere'' layer_stub = [Inl (FsError ''ENOENT'')]
   \<and> loadDir (files malformed_user_env) ''root/users'' (user_transform (safeLoad malformed_user_env))
       = [Inl (YAMLException ''bad'')]
   \<and> loadDir (files two_malformed_env) ''root/users'' (user_transform (safeLoad two_malformed_env))
       = [Inl (YAMLException ''bad''), Inl (YAMLException ''bad'')]"
  by code_simp

text \<open>
  C2 (errors of a directory load). The claim says that a directory load fails, its
  callback invoked with an error, when an entry is none of regular file, directory or
  symbolic link; the comment of \<^verbatim>\<open>loadDir\<close> says that every entry is passed to the transform
  and that the callback is invoked once all entries are listed. The code does neither:
  the tests \<^verbatim>\<open>isFile\<close>, \<^verbatim>\<open>isDirectory\<close>, \<^verbatim>\<open>isSymbolicLink\<close> have no final \<^verbatim>\<open>else\<close>, so such
  an entry is not passed on and the counter is never decremented for it. For a directory
  \<open>d\<close> whose listing succeeds and whose only entry is a FIFO, the callback is never
  invoked, neither with an error nor with a result. The rest of the claim holds
  (\<open>loadDir_fails\<close>).
\<close>

theorem other_kind_no_callback:
  "readdir pipe_fs ''d'' = Inr [''pipe''] \<and> lstat pipe_fs (join ''/'' [''d'', ''pipe'']) = Inr OtherKind
   \<and> loadDir pipe_fs ''d'' layer_stub = []"
  by code_simp

subsection \<open>async.parallel over loaders\<close>

text \<open>The callback of a loader is invoked once with a result, or with errors only. For three
  tasks of that shape the final callback of \<open>parallel3\<close> is invoked at most once: with the
  three results when all succeed, else with the first error, if there is one. An exception
  is thrown exactly when a task invokes its callback more than once.\<close>

lemma loadDir_shape:
  "(\<exists>r. loadDir f dir fn = [Inr r]) \<or> (\<forall>ev\<in>set (loadDir f dir fn). isl ev)"
  by (auto simp: loadDir_calls dest: reported_isl split: sum.splits)

lemma task_success:
  "task_callback put st (Inr v) =
     (if Suc (completed st) = 3 \<and> live st
      then st\<lparr>results := put v (results st), completed := Suc (completed st),
              final := final st @ [Inr (put v (results st))]\<rparr>
      else st\<lparr>results := put v (results st), completed := Suc (completed st)\<rparr>)"
  by (simp add: task_callback_def Let_def)

lemma shaped_cases:
  assumes "shaped evs"
  obtains (Success) r where "evs = [Inr r]" "success evs = Some r" "errors_of evs = []"
  | (Errors) "\<forall>ev\<in>set evs. isl ev" "success evs = None"
proof -
  from assms consider r where "evs = [Inr r]" | "\<forall>ev\<in>set evs. isl ev" "\<forall>r. evs \<noteq> [Inr r]"
    unfolding shaped_def by auto
  then show thesis
  proof cases
    case 1
    then show ?thesis using Success by (simp add: success_def errors_of_def)
  next
    case 2
    have "success evs = None"
    proof (cases evs)
      case Nil
      then show ?thesis by (simp add: success_def)
    next
      case (Cons ev rest)
      with 2 show ?thesis by (cases ev; cases rest) (auto simp: success_def)
    qed
    with 2 show ?thesis using Errors by simp
  qed
qed

text \<open>Once the process has ended nothing runs; a task whose callback has been invoked throws.\<close>

lemma ended:
  "thrown st \<noteq> [] \<Longrightarrow> foldl (only_once fn) (st, called) evs = (st, called)"
  by (induction evs) (simp_all add: only_once_def)

lemma called_twice:
  "thrown st = [] \<Longrightarrow>
   foldl (only_once fn) (st, True) evs =
     (if evs = [] then (st, True) else (st\<lparr>thrown := [Error ''Callback was already called.'']\<rparr>, True))"
  by (cases evs) (simp_all add: only_once_def ended)

lemma task_calls:
  "thrown st = [] \<Longrightarrow>
   task put st evs =
     (case evs of
        [] \<Rightarrow> st
      | [ev] \<Rightarrow> task_callback put st ev
      | ev # _ # _ \<Rightarrow> (task_callback put st ev)\<lparr>thrown := [Error ''Callback was already called.'']\<rparr>)"
proof -
  assume a: "thrown st = []"
  have t: "thrown (task_callback put st ev) = []" for ev
    using a by (cases ev) (simp_all add: task_callback_def Let_def)
  show ?thesis
    using a by (simp add: task_def only_once_def called_twice [OF t] split: list.splits)
qed

lemma task_ended:
  "thrown st \<noteq> [] \<Longrightarrow> task put st evs = st"
  by (simp add: task_def ended)


lemma task_shaped:
  assumes "shaped evs"
    and "final st = map Inl (take 1 errs)" and "live st = (errs = [])" and "errs = [] \<longrightarrow> thrown st = []"
  shows "final (task put st evs) =
           (case success evs of
              Some v \<Rightarrow> final st @ (if Suc (completed st) = 3 \<and> live st then [Inr (put v (results st))] else [])
            | None \<Rightarrow> map Inl (take 1 (errs @ errors_of evs)))"
    and "live (task put st evs) = (errs @ errors_of evs = [])"
    and "errs @ errors_of evs = [] \<longrightarrow> thrown (task put st evs) = []"
    and "errs = [] \<longrightarrow>
         completed (task put st evs) = (case success evs of Some v \<Rightarrow> Suc (completed st) | None \<Rightarrow> completed st)"
    and "errs = [] \<longrightarrow>
         results (task put st evs) = (case success evs of Some v \<Rightarrow> put v (results st) | None \<Rightarrow> results st)"
proof -
  have "final (task put st evs) =
           (case success evs of
              Some v \<Rightarrow> final st @ (if Suc (completed st) = 3 \<and> live st then [Inr (put v (results st))] else [])
            | None \<Rightarrow> map Inl (take 1 (errs @ errors_of evs)))
        \<and> live (task put st evs) = (errs @ errors_of evs = [])
        \<and> (errs @ errors_of evs = [] \<longrightarrow> thrown (task put st evs) = [])
        \<and> (errs = [] \<longrightarrow>
         completed (task put st evs) = (case success evs of Some v \<Rightarrow> Suc (completed st) | None \<Rightarrow> completed st))
        \<and> (errs = [] \<longrightarrow>
         results (task put st evs) = (case success evs of Some v \<Rightarrow> put v (results st) | None \<Rightarrow> results st))"
  proof (cases "thrown st = []")
    case False
    with assms(4) have "errs \<noteq> []" by auto
    with False assms(2,3) show ?thesis
      by (cases errs) (auto simp: task_ended split: option.splits)
  next
    case True
    note calls = task_calls [OF True, of put evs]
    from assms(1) show ?thesis
    proof (cases rule: shaped_cases)
      case (Success r)
      with calls assms(2,3) True show ?thesis
        by (cases errs) (simp_all add: task_success)
    next
      case Errors
      show ?thesis
      proof (cases evs)
        case Nil
        with calls Errors(2) assms(2,3) True show ?thesis
          by (simp add: errors_of_def)
      next
        case (Cons ev rest)
        with Errors(1) obtain e where ev: "ev = Inl e" by (cases ev) auto
        have es: "errors_of (Inl e # xs) = e # errors_of xs" for xs :: "(error + 'a) list"
          by (simp add: errors_of_def)
        from calls Errors(2) assms(2,3) True show ?thesis
          by (cases errs; cases rest) (simp_all add: Cons ev es task_callback_def)
      qed
    qed
  qed
  then show "final (task put st evs) =
           (case success evs of
              Some v \<Rightarrow> final st @ (if Suc (completed st) = 3 \<and> live st then [Inr (put v (results st))] else [])
            | None \<Rightarrow> map Inl (take 1 (errs @ errors_of evs)))"
    and "live (task put st evs) = (errs @ errors_of evs = [])"
    and "errs @ errors_of evs = [] \<longrightarrow> thrown (task put st evs) = []"
    and "errs = [] \<longrightarrow>
         completed (task put st evs) = (case success evs of Some v \<Rightarrow> Suc (completed st) | None \<Rightarrow> completed st)"
    and "errs = [] \<longrightarrow>
         results (task put st evs) = (case success evs of Some v \<Rightarrow> put v (results st) | None \<Rightarrow> results st)"
    by simp_all
qed


lemma parallel3_calls:
  assumes "shaped t0" "shaped t1" "shaped t2"
  shows "parallel3 t0 t1 t2 =
     (case (success t0, success t1, success t2) of
        (Some a, Some b, Some d) \<Rightarrow> [Inr (Some a, Some b, Some d)]
      | _ \<Rightarrow> map Inl (take 1 (errors_of t0 @ errors_of t1 @ errors_of t2)))"
proof -
  define s0 :: "('a, 'b, 'c) parallel"
    where "s0 = \<lparr>live = True, completed = 0, results = (None, None, None), final = [], thrown = []\<rparr>"
  define s1 where "s1 = task (\<lambda>v (a, b, d). (Some v, b, d)) s0 t0"
  define s2 where "s2 = task (\<lambda>v (a, b, d). (a, Some v, d)) s1 t1"
  define s3 where "s3 = task (\<lambda>v (a, b, d). (a, b, Some v)) s2 t2"
  have p: "parallel3 t0 t1 t2 = final s3"
    by (simp add: parallel3_def parallel3_run_def s0_def s1_def s2_def s3_def Let_def)
  have i0: "final s0 = map Inl (take 1 [])" "live s0 = ([] = ([]::error list))"
    "([]::error list) = [] \<longrightarrow> thrown s0 = []"
    by (simp_all add: s0_def)
  note a = task_shaped [OF assms(1) i0, of "\<lambda>v (a, b, d). (Some v, b, d)", folded s1_def, simplified]
  have f1: "final s1 = map Inl (take 1 (errors_of t0))"
    using assms(1) a(1) by (cases rule: shaped_cases) (simp_all add: s0_def)
  have i1: "final s1 = map Inl (take 1 (errors_of t0))" "live s1 = (errors_of t0 = [])"
    "errors_of t0 = [] \<longrightarrow> thrown s1 = []"
    using f1 a(2,3) by simp_all
  have c1: "completed s1 = (case success t0 of Some v \<Rightarrow> 1 | None \<Rightarrow> 0)"
    and r1: "results s1 = (case success t0 of Some v \<Rightarrow> (Some v, None, None) | None \<Rightarrow> (None, None, None))"
    using a(4,5) by (simp_all add: s0_def split: option.splits)
  note b = task_shaped [OF assms(2) i1, of "\<lambda>v (a, b, d). (a, Some v, d)", folded s2_def]
  have f2: "final s2 = map Inl (take 1 (errors_of t0 @ errors_of t1))"
    using assms(2) b(1) by (cases rule: shaped_cases) (simp_all add: c1 f1 split: option.splits)
  have i2: "final s2 = map Inl (take 1 (errors_of t0 @ errors_of t1))"
    "live s2 = (errors_of t0 @ errors_of t1 = [])"
    "errors_of t0 @ errors_of t1 = [] \<longrightarrow> thrown s2 = []"
    using f2 b(2,3) by simp_all
  note d = task_shaped [OF assms(3) i2, of "\<lambda>v (a, b, d). (a, b, Some v)", folded s3_def]
  show ?thesis
    using assms(1)
  proof (cases rule: shaped_cases)
    case t0: (Success x)
    show ?thesis
      using assms(2)
    proof (cases rule: shaped_cases)
      case t1: (Success y)
      show ?thesis
        using assms(3)
      proof (cases rule: shaped_cases)
        case t2: (Success z)
        from d(1) b(4,5) show ?thesis
          by (simp add: p t0(2,3) t1(2,3) t2(2,3) c1 r1 i2)
      next
        case t2: Errors
        from d(1) show ?thesis
          by (simp add: p t0(2,3) t1(2,3) t2(2))
      qed
    next
      case t1: Errors
      show ?thesis
        using assms(3)
      proof (cases rule: shaped_cases)
        case t2: (Success z)
        from d(1) b(4) show ?thesis
          by (simp add: p t0(2,3) t1(2) t2(2,3) c1 i2)
      next
        case t2: Errors
        from d(1) show ?thesis
          by (simp add: p t0(2,3) t1(2) t2(2))
      qed
    qed
  next
    case t0: Errors
    show ?thesis
      using assms(3)
    proof (cases rule: shaped_cases)
      case t2: (Success z)
      have "\<not> (Suc (completed s2) = 3 \<and> live s2)"
        using assms(2) b(4) by (cases rule: shaped_cases) (auto simp: i2 c1 t0(2))
      with d(1) show ?thesis
        by (simp add: p t0(2) t2(2,3) i2(1))
    next
      case t2: Errors
      from d(1) show ?thesis
        by (simp add: p t0(2) t2(2))
    qed
  qed
qed

lemma task_thrown:
  "thrown (task put st evs) =
     (if thrown st = [] \<and> 2 \<le> length evs then [Error ''Callback was already called.''] else thrown st)"
proof (cases "thrown st = []")
  case False
  then show ?thesis by (simp add: task_ended)
next
  case True
  have t: "thrown (task_callback put st ev) = []" for ev
    using True by (cases ev) (simp_all add: task_callback_def Let_def)
  show ?thesis
    by (simp add: task_calls [OF True] t True split: list.splits)
qed

lemma parallel3_throws:
  "parallel3_thrown t0 t1 t2 =
     (if 2 \<le> length t0 \<or> 2 \<le> length t1 \<or> 2 \<le> length t2 then [Error ''Callback was already called.''] else [])"
  by (simp add: parallel3_thrown_def parallel3_run_def task_thrown Let_def)

subsection \<open>The second phase of loadLayers\<close>

text \<open>The layers are delivered exactly when the scan of every layer delivers a result, and
  then each layer holds the uids of its scan; otherwise the callback gets the errors of the
  scans.\<close>

lemma shaped_loadDir: "shaped (loadDir f dir fn)"
  using loadDir_shape [of f dir fn] by (simp add: shaped_def)

lemma scanned_errors:
  "\<forall>ev\<in>set es. isl ev \<Longrightarrow> foldl scanned st es = st\<lparr>lcalls := lcalls st @ map Inl (errors_of es)\<rparr>"
proof (induction es arbitrary: st)
  case Nil
  show ?case by (simp add: errors_of_def)
next
  case (Cons ev es)
  then obtain e where ev: "ev = Inl e" by (cases ev) auto
  from Cons.prems have rest: "\<forall>ev\<in>set es. isl ev" by simp
  show ?case
    using Cons.IH [OF rest, of "scanned st (Inl e)"]
    by (simp add: ev scanned_def errors_of_def)
qed

lemma scanned_success:
  "scanned st (Inr r) =
     (if lc st = 1 then st\<lparr>lc := 0, lcalls := lcalls st @ [Inr (layers st)]\<rparr>
      else st\<lparr>lc := lc st - 1\<rparr>)"
  by (simp add: scanned_def Let_def)

lemma scan_layer_step:
  assumes "i < length (layers st)"
  shows "scan_layer f dir st i =
     (let layer = layers st ! i;
          st1 = st\<lparr>layers := (layers st)[i := filled f dir layer]\<rparr>
      in if layer_ok f dir layer then
           (if lc st = 1 then st1\<lparr>lc := 0, lcalls := lcalls st @ [Inr (layers st1)]\<rparr>
            else st1\<lparr>lc := lc st - 1\<rparr>)
         else st1\<lparr>lcalls := lcalls st @ map Inl (errors_of (loadDir f (layer_path dir layer) member_transform))\<rparr>)"
  using shaped_loadDir [of f "layer_path dir (layers st ! i)" member_transform]
proof (cases rule: shaped_cases)
  case (Success r)
  then show ?thesis
    by (simp add: scan_layer_def Let_def layer_ok_def layer_path_def filled_def scanned_success)
next
  case Errors
  then show ?thesis
    by (simp add: scan_layer_def Let_def layer_ok_def layer_path_def filled_def scanned_errors)
qed

lemma layer_ok_errors: "layer_ok f dir layer \<Longrightarrow> errors_of (loadDir f (layer_path dir layer) member_transform) = []"
  using shaped_loadDir [of f "layer_path dir layer" member_transform]
  by (cases rule: shaped_cases) (simp_all add: layer_ok_def)

lemma all_ok_errors: "list_all (layer_ok f dir) ls \<Longrightarrow> layer_errors f dir ls = []"
  by (induction ls) (simp_all add: layer_errors_def layer_ok_errors)

lemma filter_all: "length (filter P xs) = length xs \<longleftrightarrow> list_all P xs"
  by (metis filter_id_conv length_filter_less list_all_iff order_less_irrefl sum_length_filter_compl add_cancel_right_right length_0_conv filter_False)

lemma scan_prefix:
  "k \<le> length ls \<Longrightarrow>
   foldl (scan_layer f dir) \<lparr>layers = ls, lc = int (length ls), lcalls = []\<rparr> [0..<k] =
     \<lparr>layers = map (filled f dir) (take k ls) @ drop k ls,
      lc = int (length ls) - int (length (filter (layer_ok f dir) (take k ls))),
      lcalls = (if k = length ls \<and> ls \<noteq> [] \<and> list_all (layer_ok f dir) ls
                then [Inr (map (filled f dir) ls)]
                else map Inl (layer_errors f dir (take k ls)))\<rparr>"
proof (induction k)
  case 0
  show ?case by (simp add: layer_errors_def)
next
  case (Suc k)
  then have k: "k < length ls" by simp
  define n where "n = length (filter (layer_ok f dir) (take k ls))"
  define es where "es = layer_errors f dir (take k ls)"
  define st where "st = \<lparr>layers = map (filled f dir) (take k ls) @ drop k ls,
      lc = int (length ls) - int n, lcalls = map Inl es\<rparr>"
  define start where "start = \<lparr>layers = ls, lc = int (length ls), lcalls = []\<rparr>"
  from Suc k have prev: "foldl (scan_layer f dir) start [0..<k] = st"
    by (simp add: st_def n_def es_def start_def)
  have unfold: "foldl (scan_layer f dir) start [0..<Suc k] = scan_layer f dir st k"
    by (simp add: prev)
  have at: "layers st ! k = ls ! k"
    using k by (simp add: st_def nth_append)
  have upd: "(layers st)[k := filled f dir (ls ! k)] = map (filled f dir) (take (Suc k) ls) @ drop (Suc k) ls"
    using k by (simp add: st_def list_update_append take_Suc_conv_app_nth Cons_nth_drop_Suc [symmetric])
  have len: "k < length (layers st)" using k by (simp add: st_def)
  have tk: "take (Suc k) ls = take k ls @ [ls ! k]"
    using k by (simp add: take_Suc_conv_app_nth)
  have cnt: "n \<le> k"
    using length_filter_le [of "layer_ok f dir" "take k ls"] k by (simp add: n_def)
  have full: "n = k \<longleftrightarrow> list_all (layer_ok f dir) (take k ls)"
    using filter_all [of "layer_ok f dir" "take k ls"] k by (simp add: n_def)
  have split_all: "Suc k = length ls \<Longrightarrow>
      list_all (layer_ok f dir) ls \<longleftrightarrow> list_all (layer_ok f dir) (take k ls) \<and> layer_ok f dir (ls ! k)"
  proof -
    assume "Suc k = length ls"
    with tk have "ls = take k ls @ [ls ! k]" by simp
    then have "list_all (layer_ok f dir) ls = list_all (layer_ok f dir) (take k ls @ [ls ! k])"
      by simp
    then show ?thesis by (simp only: list_all_append list.pred_inject) simp
  qed
  have step: "scan_layer f dir st k =
     (let st1 = st\<lparr>layers := map (filled f dir) (take (Suc k) ls) @ drop (Suc k) ls\<rparr>
      in if layer_ok f dir (ls ! k) then
           (if lc st = 1 then st1\<lparr>lc := 0, lcalls := lcalls st @ [Inr (layers st1)]\<rparr>
            else st1\<lparr>lc := lc st - 1\<rparr>)
         else st1\<lparr>lcalls := lcalls st @ map Inl (errors_of (loadDir f (layer_path dir (ls ! k)) member_transform))\<rparr>)"
    using scan_layer_step [OF len, of f dir] by (simp only: at upd Let_def)
  have n': "length (filter (layer_ok f dir) (take (Suc k) ls)) = (if layer_ok f dir (ls ! k) then Suc n else n)"
    by (simp add: tk n_def)
  have es': "layer_errors f dir (take (Suc k) ls) = es @ errors_of (loadDir f (layer_path dir (ls ! k)) member_transform)"
    by (simp add: tk es_def layer_errors_def)
  show ?case
  proof (cases "layer_ok f dir (ls ! k)")
    case False
    then have "\<not> list_all (layer_ok f dir) ls"
      using k by (auto simp: list_all_length)
    with False show ?thesis
      unfolding unfold [unfolded start_def] step n' es'
      by (simp add: st_def Let_def)
  next
    case True
    then have noerr: "errors_of (loadDir f (layer_path dir (ls ! k)) member_transform) = []"
      by (rule layer_ok_errors)
    show ?thesis
    proof (cases "n = k \<and> Suc k = length ls")
      case last: True
      with full split_all True have all: "list_all (layer_ok f dir) ls" by simp
      from last have one: "lc st = 1" by (simp add: st_def)
      from full last have "es = []"
        using all_ok_errors [of f dir "take k ls"] by (simp add: es_def)
      moreover from k have "ls \<noteq> []" by auto
      ultimately show ?thesis
        using True all last one
        unfolding unfold [unfolded start_def] step n' es'
        by (simp add: st_def Let_def)
    next
      case notlast: False
      have ne: "lc st \<noteq> 1"
        using notlast cnt k by (simp add: st_def) linarith
      have notall: "\<not> (Suc k = length ls \<and> ls \<noteq> [] \<and> list_all (layer_ok f dir) ls)"
        using notlast full split_all by auto
      from True notall ne noerr show ?thesis
        unfolding unfold [unfolded start_def] step n' es'
        by (auto simp: st_def Let_def)
    qed
  qed
qed

lemma scan_layers_calls:
  "scan_layers f dir (Inr ls) =
     (if ls \<noteq> [] \<and> list_all (layer_ok f dir) ls then [Inr (map (filled f dir) ls)]
      else map Inl (layer_errors f dir ls))"
  using scan_prefix [of "length ls" ls f dir]
  by (simp add: scan_layers_def)

subsection \<open>load\<close>

lemma shaped_errors: "\<forall>ev\<in>set evs. isl ev \<Longrightarrow> shaped evs"
  by (simp add: shaped_def)

lemma scan_layers_error: "isl ev \<Longrightarrow> scan_layers f dir ev = [Inl (projl ev)]"
  by (cases ev) (simp_all add: scan_layers_def)

lemma shaped_loadLayers: "shaped (loadLayers e dir)"
  using shaped_loadDir [of "files e" "join ''/'' [dir, ''layers'']" layer_stub]
proof (cases rule: shaped_cases)
  case (Success ls)
  then show ?thesis
    by (simp add: loadLayers_def scan_layers_calls shaped_def)
next
  case Errors
  then have "\<forall>ev\<in>set (loadLayers e dir). isl ev"
    by (auto simp: loadLayers_def scan_layers_error)
  then show ?thesis by (rule shaped_errors)
qed

lemma shaped_loadUsers: "shaped (loadUsers e dir)"
  by (simp add: loadUsers_def shaped_loadDir)

lemma shaped_loadGroups: "shaped (loadGroups e dir)"
  by (simp add: loadGroups_def shaped_loadDir)

text \<open>The callback of load is invoked at most once: with the store when the three loaders
  succeed, else with the first error reported, if any.\<close>

lemma load_calls:
  "load e dir st =
     (case (success (loadGroups e dir), success (loadUsers e dir), success (loadLayers e dir)) of
        (Some gs, Some us, Some ls) \<Rightarrow> loaded dir (st, []) (Inr (Some gs, Some us, Some ls))
      | _ \<Rightarrow> (st, map Inl (take 1 (errors_of (loadGroups e dir) @ errors_of (loadUsers e dir)
                                      @ errors_of (loadLayers e dir)))))"
proof -
  have fold_errs: "\<And>es acc. foldl (loaded dir) acc (map Inl es) = (fst acc, snd acc @ map Inl es)"
  proof -
    fix es :: "error list" and acc :: "state \<times> (error + data_store) list"
    show "foldl (loaded dir) acc (map Inl es) = (fst acc, snd acc @ map Inl es)"
      by (induction es arbitrary: acc) (simp_all add: loaded_def)
  qed
  show ?thesis
    by (simp add: load_def parallel3_calls [OF shaped_loadGroups shaped_loadUsers shaped_loadLayers]
        fold_errs split: option.splits)
qed

lemma load_success:
  "Inr s \<in> set (snd (load e dir st)) \<Longrightarrow>
   \<exists>gs us ls. success (loadGroups e dir) = Some gs \<and> success (loadUsers e dir) = Some us
     \<and> success (loadLayers e dir) = Some ls
     \<and> load e dir st = loaded dir (st, []) (Inr (Some gs, Some us, Some ls))"
  by (auto simp: load_calls split: option.splits)

lemma take_one: "x \<in> set (take 1 xs) \<Longrightarrow> take 1 xs = [x]"
  by (cases xs) auto

lemma load_failure:
  assumes "Inl err \<in> set (snd (load e dir st))"
  shows "load e dir st = (st, [Inl err])"
proof -
  define es where "es = errors_of (loadGroups e dir) @ errors_of (loadUsers e dir) @ errors_of (loadLayers e dir)"
  note calls = load_calls [of e dir st, folded es_def]
  show ?thesis
  proof (cases "\<exists>gs us ls. success (loadGroups e dir) = Some gs \<and> success (loadUsers e dir) = Some us
      \<and> success (loadLayers e dir) = Some ls")
    case True
    with assms calls show ?thesis
      by (auto simp: loaded_def Let_def)
  next
    case False
    with calls have l: "load e dir st = (st, map Inl (take 1 es))"
      by (auto split: option.splits)
    with assms have "err \<in> set (take 1 es)" by auto
    then have "take 1 es = [err]" by (rule take_one)
    with l show ?thesis by simp
  qed
qed

lemma load_no_success:
  "success (loadGroups e dir) = None \<or> success (loadUsers e dir) = None \<or> success (loadLayers e dir) = None \<Longrightarrow>
   fst (load e dir st) = st \<and> (\<forall>s. Inr s \<notin> set (snd (load e dir st)))"
  by (auto simp: load_calls split: option.splits)

lemma loadLayers_empty: "readdir (files e) (join ''/'' [dir, ''layers'']) = Inr [] \<Longrightarrow> loadLayers e dir = []"
  by (simp add: loadLayers_def loadDir_empty)

lemma errors_of_mem: "err \<in> set (errors_of evs) \<longleftrightarrow> Inl err \<in> set evs"
  by (induction evs) (auto simp: errors_of_def split: sum.splits)

text \<open>
  C8 (empty directories), as amended. For a directory whose listing is empty \<open>loadDir\<close>
  never invokes its callback. Consequently a load over a tree whose \<open>users\<close>, \<open>groups\<close>
  or \<open>layers\<close> directory is empty never delivers a store and leaves the state as it is;
  its callback is invoked at most once, and only with an error that another branch
  reports.
\<close>

theorem empty_listing_never_completes:
  "(readdir f d = Inr [] \<longrightarrow> loadDir f d fn = [])
   \<and> (readdir (files e) (join ''/'' [dir, ''users'']) = Inr []
       \<or> readdir (files e) (join ''/'' [dir, ''groups'']) = Inr []
       \<or> readdir (files e) (join ''/'' [dir, ''layers'']) = Inr []
      \<longrightarrow> fst (load e dir st) = st
          \<and> (\<forall>s. Inr s \<notin> set (snd (load e dir st)))
          \<and> length (snd (load e dir st)) \<le> 1
          \<and> (\<forall>err. Inl err \<in> set (snd (load e dir st)) \<longrightarrow>
                Inl err \<in> set (loadGroups e dir) \<or> Inl err \<in> set (loadUsers e dir)
                \<or> Inl err \<in> set (loadLayers e dir)))"
proof (intro conjI impI allI)
  assume "readdir f d = Inr []"
  then show "loadDir f d fn = []" by (rule loadDir_empty)
next
  assume a: "readdir (files e) (join ''/'' [dir, ''users'']) = Inr []
       \<or> readdir (files e) (join ''/'' [dir, ''groups'']) = Inr []
       \<or> readdir (files e) (join ''/'' [dir, ''layers'']) = Inr []"
  then have "loadUsers e dir = [] \<or> loadGroups e dir = [] \<or> loadLayers e dir = []"
    by (auto simp: loadUsers_def loadGroups_def loadDir_empty loadLayers_empty)
  then have none: "success (loadGroups e dir) = None \<or> success (loadUsers e dir) = None
      \<or> success (loadLayers e dir) = None"
    by (auto simp: success_def)
  define es where "es = errors_of (loadGroups e dir) @ errors_of (loadUsers e dir) @ errors_of (loadLayers e dir)"
  from none have calls: "snd (load e dir st) = map Inl (take 1 es)"
    by (auto simp: load_calls es_def split: option.splits)
  from load_no_success [OF none, of st]
  show "fst (load e dir st) = st" and "\<And>s. Inr s \<notin> set (snd (load e dir st))"
    by simp_all
  show "length (snd (load e dir st)) \<le> 1"
    by (simp add: calls)
  fix err assume "Inl err \<in> set (snd (load e dir st))"
  then have "err \<in> set (take 1 es)" by (auto simp: calls)
  then have "err \<in> set es" by (rule in_set_takeD)
  then show "Inl err \<in> set (loadGroups e dir) \<or> Inl err \<in> set (loadUsers e dir)
                \<or> Inl err \<in> set (loadLayers e dir)"
    by (auto simp: es_def errors_of_mem)
qed

theorem empty_listing_never_completes_witness:
  "loadDir (files empty_users_env) ''root/users'' (user_transform (safeLoad empty_users_env)) = []
   \<and> load empty_users_env ''root'' initial = (initial, [])
   \<and> load unreadable_groups_env ''root'' initial = (initial, [Inl (FsError ''EACCES'')])
   \<and> Inl (FsError ''EACCES'') \<in> set (loadGroups unreadable_groups_env ''root'')"
proof -
  have 1: "readdir (files empty_users_env) ''root/users'' = Inr []"
    "readdir (files unreadable_groups_env) ''root/users'' = Inr []"
    by code_simp+
  have 2: "join ''/'' [''root'', ''users''] = ''root/users''" by simp
  have 3: "snd (load empty_users_env ''root'' initial) = []"
    "snd (load unreadable_groups_env ''root'' initial) = [Inl (FsError ''EACCES'')]"
    "loadGroups unreadable_groups_env ''root'' = [Inl (FsError ''EACCES'')]"
    by code_simp+
  from empty_listing_never_completes [of "files empty_users_env" "''root/users''"
      "user_transform (safeLoad empty_users_env)" empty_users_env "''root''" initial]
    empty_listing_never_completes [of "files empty_users_env" "''root/users''"
      "user_transform (safeLoad empty_users_env)" unreadable_groups_env "''root''" initial] 1 2 3
  show ?thesis
    by (simp add: prod_eq_iff)
qed

text \<open>The claim as stated says such a load never completes. It does when another branch
  fails: with an empty \<open>users\<close> directory and a \<open>groups\<close> directory that cannot be
  listed, the callback of \<open>load\<close> is invoked with that error.\<close>

theorem empty_users_load_completes:
  "readdir (files unreadable_groups_env) ''root/users'' = Inr []
   \<and> loadUsers unreadable_groups_env ''root'' = []
   \<and> snd (load unreadable_groups_env ''root'' initial) = [Inl (FsError ''EACCES'')]"
  by code_simp

text \<open>A user file that reports an error makes the load fail.\<close>

lemma malformed_user_fails:
  assumes "readdir (files e) (join ''/'' [dir, ''users'']) = Inr entries" "file \<in> set entries"
    and "entry_outcome (files e) (join ''/'' [dir, ''users'']) (user_transform (safeLoad e)) file = Reports err"
  shows "\<exists>err'. load e dir st = (st, [Inl err'])"
proof -
  from assms loadDir_reports [of "files e" "join ''/'' [dir, ''users'']" entries "file" "user_transform (safeLoad e)" err]
  have u: "Inl err \<in> set (loadUsers e dir)" "\<forall>r. Inr r \<notin> set (loadUsers e dir)"
    by (simp_all add: loadUsers_def)
  then have none: "success (loadUsers e dir) = None"
    by (cases "success (loadUsers e dir)") (auto simp: success_def split: list.splits sum.splits)
  from u(1) have "err \<in> set (errors_of (loadUsers e dir))"
    by (force simp: errors_of_def)
  then have "errors_of (loadGroups e dir) @ errors_of (loadUsers e dir) @ errors_of (loadLayers e dir) \<noteq> []"
    by auto
  then obtain err' rest where
    "errors_of (loadGroups e dir) @ errors_of (loadUsers e dir) @ errors_of (loadLayers e dir) = err' # rest"
    by (cases "errors_of (loadGroups e dir) @ errors_of (loadUsers e dir) @ errors_of (loadLayers e dir)") auto
  with none have "load e dir st = (st, [Inl err'])"
    by (simp add: load_calls split: option.splits del: append_eq_Cons_conv Cons_eq_append_conv)
  then show ?thesis ..
qed

text \<open>
  C3 (group files that do not parse), as amended. A parse failure (the parser throws) in a
  group file is fatal: the groups load reports that error and delivers no result, and the
  load delivers no store, exactly as for a user file (\<open>malformed_user_fails\<close>). What the
  groups load skips is a file whose content parses to the \<^verbatim>\<open>null\<close> document, or to a
  record whose \<^verbatim>\<open>gidNumber\<close> is absent or zero: that entry is accumulated as \<open>None\<close>,
  which \<^verbatim>\<open>compact\<close> drops, and the load goes on. Only there do the two kinds of record
  differ: a user file with the \<^verbatim>\<open>null\<close> document makes the transform throw.
\<close>

theorem group_parse_failure_fatal:
  "(readdir (files e) (join ''/'' [dir, ''groups'']) = Inr entries \<and> file \<in> set entries
      \<and> lstat (files e) (join ''/'' [join ''/'' [dir, ''groups''], file]) = Inr RegularFile
      \<and> readFile (files e) (join ''/'' [join ''/'' [dir, ''groups''], file]) = Inr contents
      \<and> safeLoad e (Some contents) = Inl err
    \<longrightarrow> Inl err \<in> set (loadGroups e dir) \<and> (\<forall>r. Inr r \<notin> set (loadGroups e dir))
        \<and> (\<forall>s. Inr s \<notin> set (snd (load e dir st))))
   \<and> (lstat (files e) (join ''/'' [join ''/'' [dir, ''groups''], file]) = Inr RegularFile
      \<and> readFile (files e) (join ''/'' [join ''/'' [dir, ''groups''], file]) = Inr contents
      \<and> (safeLoad e (Some contents) = Inr None
         \<or> (\<exists>y. safeLoad e (Some contents) = Inr (Some y) \<and> (y_gidNumber y = None \<or> y_gidNumber y = Some 0)))
    \<longrightarrow> entry_outcome (files e) (join ''/'' [dir, ''groups'']) (group_transform (safeLoad e)) file
          = Yields None)
   \<and> (safeLoad e (Some contents) = Inr None
    \<longrightarrow> user_transform (safeLoad e) (file, Some contents)
          = Inl (TypeError ''Cannot set property cn of null''))"
proof (intro conjI impI)
  assume a: "readdir (files e) (join ''/'' [dir, ''groups'']) = Inr entries \<and> file \<in> set entries
      \<and> lstat (files e) (join ''/'' [join ''/'' [dir, ''groups''], file]) = Inr RegularFile
      \<and> readFile (files e) (join ''/'' [join ''/'' [dir, ''groups''], file]) = Inr contents
      \<and> safeLoad e (Some contents) = Inl err"
  then have r: "entry_outcome (files e) (join ''/'' [dir, ''groups'']) (group_transform (safeLoad e)) file = Reports err"
    by (simp add: entry_outcome_def group_transform_def)
  with a loadDir_reports [of "files e" "join ''/'' [dir, ''groups'']" entries "file" "group_transform (safeLoad e)" err]
  have g: "Inl err \<in> set (loadGroups e dir) \<and> (\<forall>r. Inr r \<notin> set (loadGroups e dir))"
    by (simp add: loadGroups_def)
  then show "Inl err \<in> set (loadGroups e dir)" and "\<forall>r. Inr r \<notin> set (loadGroups e dir)"
    by simp_all
  from g have "success (loadGroups e dir) = None"
    by (cases "success (loadGroups e dir)") (auto simp: success_def split: list.splits sum.splits)
  then show "\<forall>s. Inr s \<notin> set (snd (load e dir st))"
    using load_no_success [of e dir st] by simp
next
  assume "lstat (files e) (join ''/'' [join ''/'' [dir, ''groups''], file]) = Inr RegularFile
      \<and> readFile (files e) (join ''/'' [join ''/'' [dir, ''groups''], file]) = Inr contents
      \<and> (safeLoad e (Some contents) = Inr None
         \<or> (\<exists>y. safeLoad e (Some contents) = Inr (Some y) \<and> (y_gidNumber y = None \<or> y_gidNumber y = Some 0)))"
  then show "entry_outcome (files e) (join ''/'' [dir, ''groups'']) (group_transform (safeLoad e)) file
          = Yields None"
    by (auto simp: entry_outcome_def group_transform_def log_info_def)
next
  assume "safeLoad e (Some contents) = Inr None"
  then show "user_transform (safeLoad e) (file, Some contents)
          = Inl (TypeError ''Cannot set property cn of null'')"
    by (simp add: user_transform_def)
qed

theorem group_parse_failure_fatal_witness:
  "Inl (YAMLException ''bad'') \<in> set (loadGroups malformed_group_env ''root'')
   \<and> entry_outcome (files tree_env) ''root/groups'' (group_transform (safeLoad tree_env)) ''empty.yaml''
       = Yields None
   \<and> compact_result (success (loadGroups tree_env ''root''))
       = [\<lparr>group_cn = Some ''staff'', gidNumber = 100, members = None\<rparr>,
          \<lparr>group_cn = Some ''admin'', gidNumber = 101, members = None\<rparr>]
   \<and> user_transform (safeLoad tree_env) (''empty.yaml'', Some [])
       = Inl (TypeError ''Cannot set property cn of null'')"
proof -
  have 1: "readdir (files malformed_group_env) (join ''/'' [''root'', ''groups''])
      = Inr [''staff.yaml'', ''admin.yaml'', ''empty.yaml'']"
    by code_simp
  have 2: "lstat (files malformed_group_env) (join ''/'' [join ''/'' [''root'', ''groups''], ''staff.yaml'']) = Inr RegularFile"
    by code_simp
  have 3: "readFile (files malformed_group_env) (join ''/'' [join ''/'' [''root'', ''groups''], ''staff.yaml'']) = Inr ''{''"
    by code_simp
  have 4: "safeLoad malformed_group_env (Some ''{'') = Inl (YAMLException ''bad'')"
    by code_simp
  have 5: "lstat (files tree_env) (join ''/'' [join ''/'' [''root'', ''groups''], ''empty.yaml'']) = Inr RegularFile"
    by code_simp
  have 6: "readFile (files tree_env) (join ''/'' [join ''/'' [''root'', ''groups''], ''empty.yaml'']) = Inr []"
    by code_simp
  have 7: "safeLoad tree_env (Some []) = Inr None"
    by code_simp
  have 8: "compact_result (success (loadGroups tree_env ''root''))
       = [\<lparr>group_cn = Some ''staff'', gidNumber = 100, members = None\<rparr>,
          \<lparr>group_cn = Some ''admin'', gidNumber = 101, members = None\<rparr>]"
    by code_simp
  have 9: "join ''/'' [''root'', ''groups''] = ''root/groups''" by simp
  from group_parse_failure_fatal [of malformed_group_env "''root''"
      "[''staff.yaml'', ''admin.yaml'', ''empty.yaml'']" "''staff.yaml''" "''{''" "YAMLException ''bad''" initial]
    1 2 3 4
  have a: "Inl (YAMLException ''bad'') \<in> set (loadGroups malformed_group_env ''root'')"
    by simp
  from group_parse_failure_fatal [of tree_env "''root''" "[]" "''empty.yaml''" "[]" "YAMLException ''bad''" initial]
    5 6 7
  have b: "entry_outcome (files tree_env) ''root/groups'' (group_transform (safeLoad tree_env)) ''empty.yaml''
       = Yields None"
    and c: "user_transform (safeLoad tree_env) (''empty.yaml'', Some [])
       = Inl (TypeError ''Cannot set property cn of null'')"
    by (simp_all only: 9) simp_all
  from a b c 8 show ?thesis by simp
qed

text \<open>The claim as stated says the groups load skips a group file that fails to parse and
  completes. With a group file holding an unbalanced brace it reports the parser's
  exception instead, and so does the load.\<close>

theorem group_parse_failure_counterexample:
  "readFile (files malformed_group_env) ''root/groups/staff.yaml'' = Inr ''{''
   \<and> safeLoad malformed_group_env (Some ''{'') = Inl (YAMLException ''bad'')
   \<and> loadGroups malformed_group_env ''root'' = [Inl (YAMLException ''bad'')]
   \<and> snd (load malformed_group_env ''root'' initial) = [Inl (YAMLException ''bad'')]"
  by code_simp

subsection \<open>Reload Controller\<close>

lemma reload_failure:
  "w < length (watches st) \<Longrightarrow> Inl err \<in> set (snd (load e (watch_dir (watches st ! w)) st)) \<Longrightarrow>
   on_all e w st = st"
  by (simp add: on_all_def load_failure)

lemma served_store: "store served = Some tree_store"
  by code_simp

lemma served_watches: "watches served = [\<lparr>watch_dir = ''root'', ready = True\<rparr>]"
  by code_simp

lemma served_keys: "publicKeys served ''bob'' = Inr (Some [''ssh-rsa AAAA''])"
  by code_simp

text \<open>
  When the callback of \<open>load\<close> is invoked with an error, the state after the load is the
  state before it: the variable \<^verbatim>\<open>store\<close>, every object of the heap and every watcher.
  The same holds for the reload a file system event triggers on a watcher of that
  directory. \<^verbatim>\<open>store\<close> is assigned on the success branch only, after \<open>buildDataStore\<close>.
\<close>

lemma failed_load_keeps_state:
  "Inl err \<in> set (snd (load e dir st)) \<Longrightarrow>
   fst (load e dir st) = st
   \<and> (w < length (watches st) \<and> watch_dir (watches st ! w) = dir \<longrightarrow> on_all e w st = st)"
  using reload_failure [of w st err e] by (auto simp: load_failure)

text \<open>A load throws to the event loop exactly when one of its loaders invokes its callback
  more than once. A directory load does so when two of its entries report an error.\<close>

lemma load_throws:
  "load_thrown e dir =
     (if 2 \<le> length (loadGroups e dir) \<or> 2 \<le> length (loadUsers e dir) \<or> 2 \<le> length (loadLayers e dir)
      then [Error ''Callback was already called.''] else [])"
  by (simp add: load_thrown_def parallel3_throws)

lemma reported_twice:
  "i < j \<Longrightarrow> j < length entries \<Longrightarrow>
   entry_outcome f dir fn (entries ! i) = Reports err \<Longrightarrow>
   entry_outcome f dir fn (entries ! j) = Reports err' \<Longrightarrow>
   2 \<le> length (reported f dir fn entries)"
proof (induction entries arbitrary: i j)
  case Nil
  then show ?case by simp
next
  case (Cons x xs)
  show ?case
  proof (cases i)
    case 0
    with Cons.prems have "entry_outcome f dir fn x = Reports err" by simp
    moreover from Cons.prems 0 have "xs ! (j - 1) \<in> set xs" "entry_outcome f dir fn (xs ! (j - 1)) = Reports err'"
      by (cases j; simp)+
    then have "Inl err' \<in> set (reported f dir fn xs)" by (rule reported_mem)
    then have "reported f dir fn xs \<noteq> []" by auto
    ultimately show ?thesis
      by (cases "reported f dir fn xs") (simp_all add: reported_def)
  next
    case (Suc i')
    with Cons.prems obtain j' where j: "j = Suc j'" by (cases j) auto
    from Cons.prems Suc j have "2 \<le> length (reported f dir fn xs)"
      by (intro Cons.IH [of i' j']) simp_all
    then show ?thesis
      by (simp add: reported_def split: entry_outcome.splits)
  qed
qed

lemma two_failing_users_throw:
  assumes "readdir (files e) (join ''/'' [dir, ''users'']) = Inr entries"
    and "i < j" and "j < length entries"
    and "entry_outcome (files e) (join ''/'' [dir, ''users'']) (user_transform (safeLoad e)) (entries ! i) = Reports err"
    and "entry_outcome (files e) (join ''/'' [dir, ''users'']) (user_transform (safeLoad e)) (entries ! j) = Reports err'"
  shows "load_thrown e dir = [Error ''Callback was already called.'']"
proof -
  from assms(2,3,4) have "\<not> all_yield (files e) (join ''/'' [dir, ''users'']) (user_transform (safeLoad e)) entries"
    using all_yield_mem [of "files e" "join ''/'' [dir, ''users'']" "user_transform (safeLoad e)" entries "entries ! i"]
    by auto
  with assms(1) have "loadUsers e dir = reported (files e) (join ''/'' [dir, ''users'']) (user_transform (safeLoad e)) entries"
    by (simp add: loadUsers_def loadDir_calls)
  with reported_twice [OF assms(2,3,4,5)] show ?thesis
    by (simp add: load_throws)
qed

text \<open>The reload of the served tree after \<open>bob.yaml\<close> alone has become unparsable: the load
  fails, nothing is thrown, and the old store answers.\<close>

lemma reload_one_malformed:
  "snd (load malformed_user_env ''root'' served) = [Inl (YAMLException ''bad'')]
   \<and> on_all_thrown malformed_user_env 0 served = []
   \<and> on_all malformed_user_env 0 served = served
   \<and> publicKeys (on_all malformed_user_env 0 served) ''bob'' = Inr (Some [''ssh-rsa AAAA''])"
proof -
  have l: "snd (load malformed_user_env ''root'' served) = [Inl (YAMLException ''bad'')]"
    by code_simp
  have t: "on_all_thrown malformed_user_env 0 served = []"
    by code_simp
  from l have "Inl (YAMLException ''bad'') \<in> set (snd (load malformed_user_env ''root'' served))"
    by simp
  from failed_load_keeps_state [OF this, of 0] show ?thesis
    using l t by (simp add: served_watches served_keys)
qed

text \<open>
  C1 (a failed load keeps the store). The claim says that after a failed load the store
  installed before is unchanged and continues to answer queries. The handler of the
  \<^verbatim>\<open>all\<close> event is written for that: it logs the error of the reload and goes on. But
  \<^verbatim>\<open>loadDir\<close> invokes its callback once for every entry that fails, and
  \<^verbatim>\<open>async.parallel\<close> throws when the callback of a task is invoked again. For the served
  tree, after a change that leaves both user files unparsable: \<open>loadUsers\<close> invokes its
  callback twice; the callback of \<open>load\<close> gets the first error and the variable \<^verbatim>\<open>store\<close>
  is not touched; the second invocation throws \<^verbatim>\<open>Error("Callback was already called.")\<close>
  to the event loop. The process ends there, and no query is answered after it. With one
  failing entry the claim holds (\<open>reload_one_malformed\<close>), and the state a failed load
  leaves is always the one before it (\<open>failed_load_keeps_state\<close>).
\<close>

theorem reload_two_malformed:
  "watches served = [\<lparr>watch_dir = ''root'', ready = True\<rparr>]
   \<and> loadUsers two_malformed_env ''root'' = [Inl (YAMLException ''bad''), Inl (YAMLException ''bad'')]
   \<and> snd (load two_malformed_env ''root'' served) = [Inl (YAMLException ''bad'')]
   \<and> store (on_all two_malformed_env 0 served) = Some tree_store
   \<and> on_all_thrown two_malformed_env 0 served = [Error ''Callback was already called.'']"
  by code_simp

text \<open>
  C7 (double initialization), as amended. The guard of \<open>initialize\<close> tests the variable
  \<^verbatim>\<open>store\<close>. A call made once a store is installed fails at once with the usage error and
  changes nothing. A call made while no store is installed is not rejected and starts one
  more watcher, whatever watchers earlier calls have started.
\<close>

theorem initialize_guard:
  "(store st \<noteq> None \<longrightarrow>
      initialize dir st = (st, [Inl (Message ''data store is already initialized'')]))
   \<and> (store st = None \<longrightarrow>
      initialize dir st = (st\<lparr>watches := watches st @ [\<lparr>watch_dir = dir, ready = False\<rparr>]\<rparr>, []))"
  by (simp add: initialize_def)

theorem initialize_guard_witness:
  "store served = Some tree_store
   \<and> initialize ''root'' served = (served, [Inl (Message ''data store is already initialized'')])
   \<and> store initial = None
   \<and> initialize ''root'' initial = (initial\<lparr>watches := [\<lparr>watch_dir = ''root'', ready = False\<rparr>]\<rparr>, [])"
  using initialize_guard [of served "''root''"] initialize_guard [of initial "''root''"]
  by (simp add: served_store) (simp add: initial_def)

text \<open>The claim as stated says a call fails as soon as an earlier call has started its
  watch. It does not: a second call right after the first, or after the initial load of
  the first has failed, reports no error and adds a second watcher.\<close>

theorem initialize_twice:
  "watches (fst (initialize ''root'' initial)) = [\<lparr>watch_dir = ''root'', ready = False\<rparr>]
   \<and> snd (initialize ''other'' (fst (initialize ''root'' initial))) = []
   \<and> watches (fst (initialize ''other'' (fst (initialize ''root'' initial))))
       = [\<lparr>watch_dir = ''root'', ready = False\<rparr>, \<lparr>watch_dir = ''other'', ready = False\<rparr>]
   \<and> snd (on_ready malformed_user_env 0 (fst (initialize ''root'' initial))) = [Inl (YAMLException ''bad'')]
   \<and> snd (initialize ''other'' (fst (on_ready malformed_user_env 0 (fst (initialize ''root'' initial))))) = []"
  by code_simp

subsection \<open>Queries\<close>

text \<open>
  C9 (publicKeys before the first successful load). While the variable \<^verbatim>\<open>store\<close> is
  unset, \<open>publicKeys\<close> throws for every uid: \<open>findUser\<close> reads \<^verbatim>\<open>store.users\<close>. It does
  not return \<^verbatim>\<open>null\<close>.
\<close>

theorem publicKeys_unset:
  "store st = None \<Longrightarrow>
   publicKeys st i = Inl (TypeError ''Cannot read property users of undefined'')"
  by (simp add: publicKeys_def findUser_def)

theorem publicKeys_unset_witness:
  "store initial = None \<and>
   publicKeys initial ''bob'' = Inl (TypeError ''Cannot read property users of undefined'')"
  using publicKeys_unset [of initial "''bob''"] by (simp add: initial_def)

text \<open>
  C10 (authenticate with an unset or empty password). When the variable
  \<^verbatim>\<open>LDAP_LAYER_<LAYER>_PASSWORD\<close> is unset or empty, every credential is refused with the
  invalid-credentials error, the empty credential included; and \<open>authenticate\<close> succeeds
  with \<open>p\<close> exactly when the variable is set to \<open>p\<close>, \<open>p\<close> is not empty and the
  credential is \<open>p\<close>.
\<close>

theorem authenticate_empty:
  "((penv (''LDAP_LAYER_'' @ toUpperCase layer @ ''_PASSWORD'') = None \<or>
     penv (''LDAP_LAYER_'' @ toUpperCase layer @ ''_PASSWORD'') = Some [])
    \<longrightarrow> authenticate penv layer credential =
          Inl (InvalidCredentialsError (''Invalid login for layer '' @ layer)))
   \<and> (authenticate penv layer credential = Inr p
      \<longleftrightarrow> penv (''LDAP_LAYER_'' @ toUpperCase layer @ ''_PASSWORD'') = Some p \<and> p \<noteq> [] \<and> credential = p)"
  by (auto simp: authenticate_def split: option.splits)

lemma toUpperCase_prod: "toUpperCase ''prod'' = ''PROD''"
  by code_simp

theorem authenticate_empty_witness:
  "prod_env (''LDAP_LAYER_'' @ toUpperCase ''prod'' @ ''_PASSWORD'') = Some []
   \<and> authenticate prod_env ''prod'' [] = Inl (InvalidCredentialsError ''Invalid login for layer prod'')"
proof -
  have k: "prod_env (''LDAP_LAYER_'' @ toUpperCase ''prod'' @ ''_PASSWORD'') = Some []"
    by (simp add: toUpperCase_prod prod_env_def)
  with authenticate_empty [of prod_env "''prod''" "[]"] show ?thesis
    by simp
qed

subsection \<open>Reference Resolver\<close>

text \<open>An index only holds addresses of the array it is built from. Pushing a user on the
  \<^verbatim>\<open>members\<close> of a group keeps every user already there; so the fix-up of one user leaves
  the other users as they are, keeps all memberships, and enters the user in every group
  found for it. Over the loop, every user processed is linked to its groups.\<close>

lemma index_by_fold:
  "foldl (\<lambda>m a. m(prop_key (key (heap ! a)) \<mapsto> a)) m as k = Some a \<Longrightarrow> a \<in> set as \<or> m k = Some a"
  by (induction as arbitrary: m) (fastforce split: if_splits)+

lemma index_by_range: "index_by key heap as k = Some a \<Longrightarrow> a \<in> set as"
  using index_by_fold [of key heap "\<lambda>k. None" as k a] by (simp add: index_by_def)

lemma add_member_frame [simp]:
  "userHeap (add_member u r st) = userHeap st"
  "length (groupHeap (add_member u r st)) = length (groupHeap st)"
  "store (add_member u r st) = store st"
  "watches (add_member u r st) = watches st"
  by (simp_all add: add_member_def Let_def split: ref.splits)

lemma add_member_mono:
  assumes "has_member st r' v"
  shows "has_member (add_member u r st) r' v"
proof (cases r)
  case (Obj a)
  show ?thesis
  proof (cases r')
    case r': (Obj a')
    with assms Obj show ?thesis
      by (cases "a < length (groupHeap st)"; cases "a = a'")
         (auto simp: has_member_def members_of_def add_member_def Let_def list_update_beyond not_less
               split: option.splits)
  next
    case (Builtin k)
    with assms Obj show ?thesis
      by (simp add: has_member_def members_of_def add_member_def Let_def)
  qed
next
  case (Builtin k)
  with assms show ?thesis
    by (cases r') (auto simp: has_member_def members_of_def add_member_def Let_def split: option.splits)
qed

lemma add_member_has:
  "allocated st r \<Longrightarrow> has_member (add_member u r st) r u"
  by (cases r) (auto simp: allocated_def has_member_def members_of_def add_member_def Let_def split: option.splits)

lemma lookup_allocated:
  "\<forall>k a. gidx k = Some a \<longrightarrow> a < length (groupHeap st) \<Longrightarrow> lookup gidx gid = Some r \<Longrightarrow> allocated st r"
  by (auto simp: lookup_def allocated_def split: option.splits if_splits)

lemma resolve_groups_fold:
  assumes "\<forall>k a. gidx k = Some a \<longrightarrow> a < length (groupHeap st)"
    and "\<forall>r. Some r \<in> set acc \<longrightarrow> has_member st r u"
  shows "userHeap (fst (foldl (resolve_group gidx u) (st, acc) gids)) = userHeap st
       \<and> length (groupHeap (fst (foldl (resolve_group gidx u) (st, acc) gids))) = length (groupHeap st)
       \<and> store (fst (foldl (resolve_group gidx u) (st, acc) gids)) = store st
       \<and> watches (fst (foldl (resolve_group gidx u) (st, acc) gids)) = watches st
       \<and> (\<forall>r v. has_member st r v \<longrightarrow> has_member (fst (foldl (resolve_group gidx u) (st, acc) gids)) r v)
       \<and> (\<forall>r. Some r \<in> set (snd (foldl (resolve_group gidx u) (st, acc) gids))
              \<longrightarrow> has_member (fst (foldl (resolve_group gidx u) (st, acc) gids)) r u)"
  using assms
proof (induction gids arbitrary: st acc)
  case Nil
  then show ?case by simp
next
  case (Cons gid gids)
  show ?case
  proof (cases "lookup gidx gid")
    case None
    then have step: "resolve_group gidx u (st, acc) gid = (st, acc @ [None])"
      by (simp add: resolve_group_def)
    from Cons.prems have "\<forall>r. Some r \<in> set (acc @ [None]) \<longrightarrow> has_member st r u" by simp
    from Cons.IH [OF Cons.prems(1) this] show ?thesis
      by (simp add: step)
  next
    case (Some r)
    then have step: "resolve_group gidx u (st, acc) gid = (add_member u r st, acc @ [Some r])"
      by (simp add: resolve_group_def)
    from Cons.prems(1) Some have al: "allocated st r" by (rule lookup_allocated)
    have v: "\<forall>k a. gidx k = Some a \<longrightarrow> a < length (groupHeap (add_member u r st))"
      using Cons.prems(1) by simp
    have m: "\<forall>r'. Some r' \<in> set (acc @ [Some r]) \<longrightarrow> has_member (add_member u r st) r' u"
      using Cons.prems(2) add_member_mono add_member_has [OF al] by auto
    from Cons.IH [OF v m] show ?thesis
      using add_member_mono by (simp add: step)
  qed
qed

lemma set_compact: "set (compact xs) = {v. Some v \<in> set xs}"
  by (induction xs) (auto simp: compact_def split: option.splits)

lemma has_member_userHeap [simp]: "has_member (st\<lparr>userHeap := h\<rparr>) r v = has_member st r v"
  by (cases r) (simp_all add: has_member_def members_of_def)

lemma resolve_user_facts:
  assumes idx: "\<forall>k a. gidx k = Some a \<longrightarrow> a < length (groupHeap st)"
    and u: "u < length (userHeap st)"
  shows "length (userHeap (resolve_user gidx st u)) = length (userHeap st)"
    and "length (groupHeap (resolve_user gidx st u)) = length (groupHeap st)"
    and "\<And>v. v \<noteq> u \<Longrightarrow> userHeap (resolve_user gidx st u) ! v = userHeap st ! v"
    and "\<And>r v. has_member st r v \<Longrightarrow> has_member (resolve_user gidx st u) r v"
    and "linked (resolve_user gidx st u) u"
proof -
  define st1 where "st1 = (case lookup gidx (primary_key (primaryGroup (userHeap st ! u))) of
       Some r \<Rightarrow> st\<lparr>userHeap := (userHeap st)[u := (userHeap st ! u)\<lparr>primaryGroup := PrimaryRef r\<rparr>]\<rparr>
     | None \<Rightarrow> st)"
  define acc where "acc = foldl (resolve_group gidx u) (st1, []) (group_keys (groups (userHeap st ! u)))"
  have r: "resolve_user gidx st u =
      (fst acc)\<lparr>userHeap := (userHeap (fst acc))[u := (userHeap (fst acc) ! u)\<lparr>groups := GroupRefs (compact (snd acc))\<rparr>]\<rparr>"
    by (simp add: resolve_user_def Let_def st1_def acc_def)
  have g1: "groupHeap st1 = groupHeap st" "builtinMembers st1 = builtinMembers st"
    and l1: "length (userHeap st1) = length (userHeap st)"
    and o1: "\<And>v. v \<noteq> u \<Longrightarrow> userHeap st1 ! v = userHeap st ! v"
    by (simp_all add: st1_def split: option.splits)
  have hm1: "\<And>r v. has_member st1 r v = has_member st r v"
    by (simp add: st1_def split: option.splits)
  have idx1: "\<forall>k a. gidx k = Some a \<longrightarrow> a < length (groupHeap st1)"
    using idx by (simp add: g1)
  have e: "\<forall>r. Some r \<in> set ([]::ref option list) \<longrightarrow> has_member st1 r u" by simp
  note f = resolve_groups_fold [OF idx1 e, of "group_keys (groups (userHeap st ! u))", folded acc_def]
  show "length (userHeap (resolve_user gidx st u)) = length (userHeap st)"
    using f l1 by (simp add: r)
  show "length (groupHeap (resolve_user gidx st u)) = length (groupHeap st)"
    using f g1 by (simp add: r)
  show "\<And>v. v \<noteq> u \<Longrightarrow> userHeap (resolve_user gidx st u) ! v = userHeap st ! v"
    using f o1 by (simp add: r)
  show "\<And>r v. has_member st r v \<Longrightarrow> has_member (resolve_user gidx st u) r v"
    using f hm1 by (simp add: r)
  have "u < length (userHeap (fst acc))" using f l1 u by simp
  then show "linked (resolve_user gidx st u) u"
    using f by (simp add: r linked_def resolved_groups_def set_compact)
qed

lemma resolve_users_fold:
  assumes "\<forall>k a. gidx k = Some a \<longrightarrow> a < length (groupHeap st)"
    and "distinct us" and "\<forall>u\<in>set us. u < length (userHeap st)"
    and "\<forall>v\<in>D. linked st v" and "D \<inter> set us = {}"
  shows "\<forall>v\<in>D \<union> set us. linked (foldl (resolve_user gidx) st us) v"
  using assms
proof (induction us arbitrary: st D)
  case Nil
  then show ?case by simp
next
  case (Cons u us)
  let ?st = "resolve_user gidx st u"
  from Cons.prems have u: "u < length (userHeap st)" by simp
  note facts = resolve_user_facts [OF Cons.prems(1) u]
  have idx: "\<forall>k a. gidx k = Some a \<longrightarrow> a < length (groupHeap ?st)"
    using Cons.prems(1) facts(2) by simp
  have bound: "\<forall>u\<in>set us. u < length (userHeap ?st)"
    using Cons.prems(3) facts(1) by simp
  have old: "\<forall>v\<in>D. linked ?st v"
  proof
    fix v assume v: "v \<in> D"
    with Cons.prems(5) have "v \<noteq> u" by auto
    with v Cons.prems(4) facts(3) [of v] facts(4) show "linked ?st v"
      by (simp add: linked_def)
  qed
  with facts(5) have inv: "\<forall>v\<in>insert u D. linked ?st v" by simp
  have disj: "insert u D \<inter> set us = {}"
    using Cons.prems(2,5) by auto
  from Cons.prems(2) have "distinct us" by simp
  from Cons.IH [OF idx this bound inv disj] show ?case by simp
qed

lemma resolve_users_frame:
  assumes "\<forall>k a. gidx k = Some a \<longrightarrow> a < length (groupHeap st)"
    and "\<forall>u\<in>set us. u < length (userHeap st)"
  shows "length (userHeap (foldl (resolve_user gidx) st us)) = length (userHeap st)
       \<and> length (groupHeap (foldl (resolve_user gidx) st us)) = length (groupHeap st)"
  using assms
proof (induction us arbitrary: st)
  case Nil
  show ?case by simp
next
  case (Cons u us)
  from Cons.prems have u: "u < length (userHeap st)" by simp
  note facts = resolve_user_facts [OF Cons.prems(1) u]
  have "\<forall>k a. gidx k = Some a \<longrightarrow> a < length (groupHeap (resolve_user gidx st u))"
    using Cons.prems(1) facts(2) by simp
  moreover have "\<forall>v\<in>set us. v < length (userHeap (resolve_user gidx st u))"
    using Cons.prems(2) facts(1) by auto
  ultimately show ?case
    using Cons.IH [of "resolve_user gidx st u"] facts(1,2) by simp
qed

text \<open>The state and the store of a successful load, from the results of the loaders.\<close>

lemma loaded_success:
  assumes "Inr s \<in> set (snd (load e dir st))"
  obtains gs us ls st1 gidx where
    "success (loadGroups e dir) = Some gs" "success (loadUsers e dir) = Some us"
    "success (loadLayers e dir) = Some ls"
    "st1 = st\<lparr>userHeap := userHeap st @ compact us, groupHeap := groupHeap st @ compact gs\<rparr>"
    "gidx = index_by group_cn (groupHeap st1) [length (groupHeap st)..<length (groupHeap st) + length (compact gs)]"
    "store_users s = [length (userHeap st)..<length (userHeap st) + length (compact us)]"
    "store_groups s = [length (groupHeap st)..<length (groupHeap st) + length (compact gs)]"
    "store_layers s = map (resolve_layer (index_by uid (userHeap st1) (store_users s))) ls"
    "store_dir s = dir"
    "fst (load e dir st) = (foldl (resolve_user gidx) st1 (store_users s))\<lparr>store := Some s\<rparr>"
    "snd (load e dir st) = [Inr s]"
proof -
  from load_success [OF assms] obtain gs us ls where
    ok: "success (loadGroups e dir) = Some gs" "success (loadUsers e dir) = Some us"
      "success (loadLayers e dir) = Some ls"
    and l: "load e dir st = loaded dir (st, []) (Inr (Some gs, Some us, Some ls))"
    by blast
  define st1 where "st1 = st\<lparr>userHeap := userHeap st @ compact us, groupHeap := groupHeap st @ compact gs\<rparr>"
  define gidx where "gidx = index_by group_cn (groupHeap st1) [length (groupHeap st)..<length (groupHeap st) + length (compact gs)]"
  define s0 where "s0 = \<lparr>store_dir = dir,
       store_users = [length (userHeap st)..<length (userHeap st) + length (compact us)],
       store_groups = [length (groupHeap st)..<length (groupHeap st) + length (compact gs)],
       store_layers = ls\<rparr>"
  have l': "load e dir st = ((snd (buildDataStore s0 st1))\<lparr>store := Some (fst (buildDataStore s0 st1))\<rparr>,
                            [Inr (fst (buildDataStore s0 st1))])"
    by (simp add: l loaded_def Let_def compact_result_def st1_def s0_def)
  with assms have s: "s = fst (buildDataStore s0 st1)" by simp
  have b1: "fst (buildDataStore s0 st1) =
      s0\<lparr>store_layers := map (resolve_layer (index_by uid (userHeap st1) (store_users s0))) ls\<rparr>"
    by (simp add: buildDataStore_def Let_def s0_def)
  have b2: "snd (buildDataStore s0 st1) = foldl (resolve_user gidx) st1 (store_users s0)"
    by (simp add: buildDataStore_def Let_def gidx_def s0_def)
  have u: "store_users s = store_users s0" by (simp add: s b1)
  show thesis
  proof (rule that [OF ok st1_def gidx_def])
    show "store_users s = [length (userHeap st)..<length (userHeap st) + length (compact us)]"
      by (simp add: u) (simp add: s0_def)
    show "store_groups s = [length (groupHeap st)..<length (groupHeap st) + length (compact gs)]"
      by (simp add: s b1) (simp add: s0_def)
    show "store_layers s = map (resolve_layer (index_by uid (userHeap st1) (store_users s))) ls"
      unfolding u by (simp add: s b1)
    show "store_dir s = dir"
      by (simp add: s b1) (simp add: s0_def)
    show "fst (load e dir st) = (foldl (resolve_user gidx) st1 (store_users s))\<lparr>store := Some s\<rparr>"
      unfolding u by (simp add: l' b2 s)
    show "snd (load e dir st) = [Inr s]"
      by (simp only: l' snd_conv s)
  qed
qed

lemma has_member_store [simp]: "has_member (st\<lparr>store := x\<rparr>) r v = has_member st r v"
  by (cases r) (simp_all add: has_member_def members_of_def)

lemma linked_store [simp]: "linked (st\<lparr>store := x\<rparr>) v = linked st v"
  by (simp add: linked_def)

lemma load_allocated:
  assumes "Inr s \<in> set (snd (load e dir st))"
  shows "store (fst (load e dir st)) = Some s"
    and "\<forall>u\<in>set (store_users s). u < length (userHeap (fst (load e dir st)))"
    and "\<forall>g\<in>set (store_groups s). g < length (groupHeap (fst (load e dir st)))"
proof -
  from assms obtain gs us ls st1 gidx where
    st1: "st1 = st\<lparr>userHeap := userHeap st @ compact us, groupHeap := groupHeap st @ compact gs\<rparr>"
    and gidx: "gidx = index_by group_cn (groupHeap st1) [length (groupHeap st)..<length (groupHeap st) + length (compact gs)]"
    and users: "store_users s = [length (userHeap st)..<length (userHeap st) + length (compact us)]"
    and groups: "store_groups s = [length (groupHeap st)..<length (groupHeap st) + length (compact gs)]"
    and final: "fst (load e dir st) = (foldl (resolve_user gidx) st1 (store_users s))\<lparr>store := Some s\<rparr>"
    by (rule loaded_success)
  have idx: "\<forall>k a. gidx k = Some a \<longrightarrow> a < length (groupHeap st1)"
    by (auto simp: gidx st1 dest!: index_by_range)
  have bound: "\<forall>u\<in>set (store_users s). u < length (userHeap st1)"
    by (simp add: users st1)
  note frame = resolve_users_frame [OF idx bound]
  show "store (fst (load e dir st)) = Some s" by (simp add: final)
  show "\<forall>u\<in>set (store_users s). u < length (userHeap (fst (load e dir st)))"
    using frame bound by (simp add: final)
  show "\<forall>g\<in>set (store_groups s). g < length (groupHeap (fst (load e dir st)))"
    using frame by (simp add: final groups st1)
qed

text \<open>
  C6 (membership in both directions). In the state after a successful load, every
  reference in the \<^verbatim>\<open>groups\<close> of a user of the store is to a group (or built-in object)
  whose \<^verbatim>\<open>members\<close> hold that user.
\<close>

theorem membership_consistent:
  assumes "Inr s \<in> set (snd (load e dir st))"
    and "u \<in> set (store_users s)"
    and "r \<in> set (resolved_groups (userHeap (fst (load e dir st)) ! u))"
  shows "has_member (fst (load e dir st)) r u"
proof -
  from assms(1) obtain gs us ls st1 gidx where
    st1: "st1 = st\<lparr>userHeap := userHeap st @ compact us, groupHeap := groupHeap st @ compact gs\<rparr>"
    and gidx: "gidx = index_by group_cn (groupHeap st1) [length (groupHeap st)..<length (groupHeap st) + length (compact gs)]"
    and users: "store_users s = [length (userHeap st)..<length (userHeap st) + length (compact us)]"
    and final: "fst (load e dir st) = (foldl (resolve_user gidx) st1 (store_users s))\<lparr>store := Some s\<rparr>"
    by (rule loaded_success)
  have idx: "\<forall>k a. gidx k = Some a \<longrightarrow> a < length (groupHeap st1)"
    by (auto simp: gidx st1 dest!: index_by_range)
  have bound: "\<forall>u\<in>set (store_users s). u < length (userHeap st1)"
    by (simp add: users st1)
  have "distinct (store_users s)" by (simp add: users)
  from resolve_users_fold [OF idx this bound, of "{}"] assms(2)
  have "linked (fst (load e dir st)) u"
    by (simp add: final)
  with assms(3) show ?thesis
    by (simp add: linked_def)
qed

theorem membership_consistent_witness:
  "Inr tree_store \<in> set (snd (load tree_env ''root'' initial))
   \<and> 0 \<in> set (store_users tree_store)
   \<and> Obj 1 \<in> set (resolved_groups (userHeap (fst (load tree_env ''root'' initial)) ! 0))
   \<and> has_member (fst (load tree_env ''root'' initial)) (Obj 1) 0
   \<and> members_of (fst (load tree_env ''root'' initial)) (Obj 1) = Some [MemberUser 0, MemberUser 1]"
proof -
  have 1: "Inr tree_store \<in> set (snd (load tree_env ''root'' initial))"
    by code_simp
  have 2: "0 \<in> set (store_users tree_store)"
    by code_simp
  have 3: "Obj 1 \<in> set (resolved_groups (userHeap (fst (load tree_env ''root'' initial)) ! 0))"
    by code_simp
  have 4: "members_of (fst (load tree_env ''root'' initial)) (Obj 1) = Some [MemberUser 0, MemberUser 1]"
    by code_simp
  from membership_consistent [OF 1 2 3] 1 2 3 4 show ?thesis by simp
qed

lemma lookup_own_or_builtin:
  "\<forall>k a. idx k = Some a \<longrightarrow> a \<in> set as \<Longrightarrow> lookup idx k = Some r \<Longrightarrow> own_or_builtin as r"
  by (auto simp: lookup_def own_or_builtin_def split: option.splits if_splits)

lemma resolve_groups_found:
  assumes "\<forall>k a. gidx k = Some a \<longrightarrow> a \<in> set gs"
    and "\<forall>r. Some r \<in> set acc \<longrightarrow> own_or_builtin gs r"
  shows "\<forall>r. Some r \<in> set (snd (foldl (resolve_group gidx u) (st, acc) gids)) \<longrightarrow> own_or_builtin gs r"
  using assms(2)
proof (induction gids arbitrary: st acc)
  case Nil
  then show ?case by simp
next
  case (Cons gid gids)
  show ?case
  proof (cases "lookup gidx gid")
    case None
    then have step: "resolve_group gidx u (st, acc) gid = (st, acc @ [None])"
      by (simp add: resolve_group_def)
    from Cons.prems have "\<forall>r. Some r \<in> set (acc @ [None]) \<longrightarrow> own_or_builtin gs r" by simp
    from Cons.IH [OF this] show ?thesis by (simp add: step)
  next
    case (Some r)
    then have step: "resolve_group gidx u (st, acc) gid = (add_member u r st, acc @ [Some r])"
      by (simp add: resolve_group_def)
    from assms(1) Some have "own_or_builtin gs r" by (rule lookup_own_or_builtin)
    with Cons.prems have "\<forall>r'. Some r' \<in> set (acc @ [Some r]) \<longrightarrow> own_or_builtin gs r'" by auto
    from Cons.IH [OF this] show ?thesis by (simp add: step)
  qed
qed

lemma resolve_user_refs:
  assumes idx: "\<forall>k a. gidx k = Some a \<longrightarrow> a < length (groupHeap st)"
    and own: "\<forall>k a. gidx k = Some a \<longrightarrow> a \<in> set gs"
    and u: "u < length (userHeap st)"
    and p: "primary_ok gs (userHeap st ! u)"
  shows "primary_ok gs (userHeap (resolve_user gidx st u) ! u)"
    and "groups_ok gs (userHeap (resolve_user gidx st u) ! u)"
proof -
  define st1 where "st1 = (case lookup gidx (primary_key (primaryGroup (userHeap st ! u))) of
       Some r \<Rightarrow> st\<lparr>userHeap := (userHeap st)[u := (userHeap st ! u)\<lparr>primaryGroup := PrimaryRef r\<rparr>]\<rparr>
     | None \<Rightarrow> st)"
  define acc where "acc = foldl (resolve_group gidx u) (st1, []) (group_keys (groups (userHeap st ! u)))"
  have r: "resolve_user gidx st u =
      (fst acc)\<lparr>userHeap := (userHeap (fst acc))[u := (userHeap (fst acc) ! u)\<lparr>groups := GroupRefs (compact (snd acc))\<rparr>]\<rparr>"
    by (simp add: resolve_user_def Let_def st1_def acc_def)
  have g1: "groupHeap st1 = groupHeap st" and l1: "length (userHeap st1) = length (userHeap st)"
    by (simp_all add: st1_def split: option.splits)
  have p1: "primary_ok gs (userHeap st1 ! u)"
  proof (cases "lookup gidx (primary_key (primaryGroup (userHeap st ! u)))")
    case None
    with p show ?thesis by (simp add: st1_def)
  next
    case (Some r)
    with own have "own_or_builtin gs r" by (auto dest: lookup_own_or_builtin)
    with Some u show ?thesis by (simp add: st1_def primary_ok_def)
  qed
  have idx1: "\<forall>k a. gidx k = Some a \<longrightarrow> a < length (groupHeap st1)"
    using idx by (simp add: g1)
  have e: "\<forall>r. Some r \<in> set ([]::ref option list) \<longrightarrow> has_member st1 r u" by simp
  note f = resolve_groups_fold [OF idx1 e, of "group_keys (groups (userHeap st ! u))", folded acc_def]
  have e': "\<forall>r. Some r \<in> set ([]::ref option list) \<longrightarrow> own_or_builtin gs r" by simp
  note found = resolve_groups_found [OF own e', of u st1 "group_keys (groups (userHeap st ! u))", folded acc_def]
  have len: "u < length (userHeap (fst acc))" using f l1 u by simp
  from f have same: "userHeap (fst acc) = userHeap st1" by simp
  show "primary_ok gs (userHeap (resolve_user gidx st u) ! u)"
    using len p1 by (simp add: r primary_ok_def same)
  show "groups_ok gs (userHeap (resolve_user gidx st u) ! u)"
    using len found by (simp add: r groups_ok_def list_all_iff set_compact)
qed

lemma resolve_users_refs:
  assumes "\<forall>k a. gidx k = Some a \<longrightarrow> a < length (groupHeap st)"
    and "\<forall>k a. gidx k = Some a \<longrightarrow> a \<in> set gs"
    and "distinct us" and "\<forall>u\<in>set us. u < length (userHeap st)"
    and "\<forall>u\<in>set us. primary_ok gs (userHeap st ! u)"
    and "\<forall>v\<in>D. primary_ok gs (userHeap st ! v) \<and> groups_ok gs (userHeap st ! v)" and "D \<inter> set us = {}"
  shows "\<forall>v\<in>D \<union> set us. primary_ok gs (userHeap (foldl (resolve_user gidx) st us) ! v)
                          \<and> groups_ok gs (userHeap (foldl (resolve_user gidx) st us) ! v)"
  using assms(1,3-)
proof (induction us arbitrary: st D)
  case Nil
  then show ?case by simp
next
  case (Cons u us)
  let ?st = "resolve_user gidx st u"
  from Cons.prems have u: "u < length (userHeap st)" by simp
  from Cons.prems have pu: "primary_ok gs (userHeap st ! u)" by simp
  note facts = resolve_user_facts [OF Cons.prems(1) u]
  note refs = resolve_user_refs [OF Cons.prems(1) assms(2) u pu]
  have idx: "\<forall>k a. gidx k = Some a \<longrightarrow> a < length (groupHeap ?st)"
    using Cons.prems(1) facts(2) by simp
  have bound: "\<forall>v\<in>set us. v < length (userHeap ?st)"
    using Cons.prems(3) facts(1) by auto
  from Cons.prems(2) have d: "distinct us" and nu: "u \<notin> set us" by simp_all
  have raw: "\<forall>v\<in>set us. primary_ok gs (userHeap ?st ! v)"
  proof
    fix v assume "v \<in> set us"
    with nu have "v \<noteq> u" by auto
    with \<open>v \<in> set us\<close> Cons.prems(4) facts(3) [of v] show "primary_ok gs (userHeap ?st ! v)"
      by simp
  qed
  have old: "\<forall>v\<in>insert u D. primary_ok gs (userHeap ?st ! v) \<and> groups_ok gs (userHeap ?st ! v)"
  proof
    fix v assume v: "v \<in> insert u D"
    show "primary_ok gs (userHeap ?st ! v) \<and> groups_ok gs (userHeap ?st ! v)"
    proof (cases "v = u")
      case True
      with refs show ?thesis by simp
    next
      case False
      with v have "v \<in> D" by simp
      with False Cons.prems(5) facts(3) [of v] show ?thesis by simp
    qed
  qed
  have disj: "insert u D \<inter> set us = {}"
    using Cons.prems(6) nu by auto
  from Cons.IH [OF idx d bound raw old disj] show ?case by simp
qed

lemma yielded_mem:
  "v \<in> set (yielded f dir fn entries) \<Longrightarrow> \<exists>x\<in>set entries. entry_outcome f dir fn x = Yields v"
  by (induction entries) (auto simp: yielded_def split: entry_outcome.splits)

lemma entry_yields:
  "entry_outcome f dir fn x = Yields v \<Longrightarrow> \<exists>args. fn args = Inr v"
  by (auto simp: entry_outcome_def Let_def split: sum.splits if_splits)

lemma success_Some: "success evs = Some r \<Longrightarrow> evs = [Inr r]"
  by (auto simp: success_def split: list.splits sum.splits)

lemma loadDir_success:
  "success (loadDir f dir fn) = Some rs \<Longrightarrow> \<forall>v\<in>set rs. \<exists>args. fn args = Inr v"
proof -
  assume "success (loadDir f dir fn) = Some rs"
  then have l: "loadDir f dir fn = [Inr rs]" by (rule success_Some)
  have noinr: "\<And>entries. reported f dir fn entries \<noteq> [Inr rs]"
  proof
    fix entries assume "reported f dir fn entries = [Inr rs]"
    then have "Inr rs \<in> set (reported f dir fn entries)" by simp
    then show False by (auto dest: reported_isl)
  qed
  from l obtain entries where "readdir f dir = Inr entries" and rs: "rs = yielded f dir fn entries"
    by (cases "readdir f dir") (auto simp: loadDir_calls noinr split: if_splits)
  show ?thesis
    using rs by (auto dest!: yielded_mem entry_yields)
qed

lemma loadUsers_raw:
  assumes "success (loadUsers e dir) = Some us"
  shows "\<forall>user\<in>set (compact us). \<exists>v. primaryGroup user = RawPrimary v"
proof
  fix user assume "user \<in> set (compact us)"
  then have "Some user \<in> set us" by (simp add: set_compact)
  with loadDir_success [OF assms [unfolded loadUsers_def]]
  obtain args where "user_transform (safeLoad e) args = Inr (Some user)" by auto
  then show "\<exists>v. primaryGroup user = RawPrimary v"
    by (cases args) (auto simp: user_transform_def split: sum.splits option.splits)
qed

lemma index_by_own: "\<forall>k a. index_by key heap as k = Some a \<longrightarrow> a \<in> set as"
  by (auto dest: index_by_range)

text \<open>In the state after a successful load every user of the store has its groups
  resolved; a resolved primary group, every group of a user and every user of a layer is
  an object of the same store, or a built-in object found under an inherited name.\<close>

lemma references_own_or_builtin:
  assumes "Inr s \<in> set (snd (load e dir st))"
  shows "\<forall>u\<in>set (store_users s).
           primary_ok (store_groups s) (userHeap (fst (load e dir st)) ! u)
           \<and> groups_ok (store_groups s) (userHeap (fst (load e dir st)) ! u)"
    and "\<forall>layer\<in>set (store_layers s).
           \<exists>rs. layer_users layer = UserRefs rs \<and> list_all (own_or_builtin (store_users s)) rs"
proof -
  from assms obtain gs us ls st1 gidx where
    ok: "success (loadUsers e dir) = Some us"
    and st1: "st1 = st\<lparr>userHeap := userHeap st @ compact us, groupHeap := groupHeap st @ compact gs\<rparr>"
    and gidx: "gidx = index_by group_cn (groupHeap st1) [length (groupHeap st)..<length (groupHeap st) + length (compact gs)]"
    and users: "store_users s = [length (userHeap st)..<length (userHeap st) + length (compact us)]"
    and groups: "store_groups s = [length (groupHeap st)..<length (groupHeap st) + length (compact gs)]"
    and layers: "store_layers s = map (resolve_layer (index_by uid (userHeap st1) (store_users s))) ls"
    and final: "fst (load e dir st) = (foldl (resolve_user gidx) st1 (store_users s))\<lparr>store := Some s\<rparr>"
    by (rule loaded_success)
  have own: "\<forall>k a. gidx k = Some a \<longrightarrow> a \<in> set (store_groups s)"
    by (auto simp: gidx groups dest!: index_by_range)
  then have idx: "\<forall>k a. gidx k = Some a \<longrightarrow> a < length (groupHeap st1)"
    by (auto simp: groups st1)
  have bound: "\<forall>u\<in>set (store_users s). u < length (userHeap st1)"
    by (simp add: users st1)
  have raw: "\<forall>u\<in>set (store_users s). primary_ok (store_groups s) (userHeap st1 ! u)"
  proof
    fix u assume "u \<in> set (store_users s)"
    then have "userHeap st1 ! u \<in> set (compact us)"
      by (auto simp: users st1 nth_append)
    with loadUsers_raw [OF ok] show "primary_ok (store_groups s) (userHeap st1 ! u)"
      by (auto simp: primary_ok_def)
  qed
  have "distinct (store_users s)" by (simp add: users)
  from resolve_users_refs [OF idx own this bound raw, of "{}"]
  show "\<forall>u\<in>set (store_users s).
           primary_ok (store_groups s) (userHeap (fst (load e dir st)) ! u)
           \<and> groups_ok (store_groups s) (userHeap (fst (load e dir st)) ! u)"
    by (simp add: final)
  show "\<forall>layer\<in>set (store_layers s).
           \<exists>rs. layer_users layer = UserRefs rs \<and> list_all (own_or_builtin (store_users s)) rs"
    using lookup_own_or_builtin [OF index_by_own [of uid "userHeap st1" "store_users s"]]
    by (auto simp: layers resolve_layer_def list_all_iff set_compact)
qed

text \<open>
  C5 (references stay in the store). The indexes of \<open>buildDataStore\<close> are objects created
  by \<^verbatim>\<open>{}\<close>, so a name that \<^verbatim>\<open>Object.prototype\<close> provides is found in them although no
  record has it. For a user whose record names the primary group \<open>constructor\<close> and the
  groups \<open>staff\<close> and \<open>toString\<close>, in a layer with a link \<open>valueOf.lnk\<close>, the load
  succeeds; the user's \<^verbatim>\<open>primaryGroup\<close> is the built-in found under \<open>constructor\<close>, its
  \<^verbatim>\<open>groups\<close> hold the built-in found under \<open>toString\<close>, and the layer's \<^verbatim>\<open>users\<close> hold
  the one found under \<open>valueOf\<close>. None of them is a group or a user of the store.
  In this model, which leaves the key \<^verbatim>\<open>__proto__\<close> out, the inherited names are the only
  references that leave the store (\<open>references_own_or_builtin\<close>).
\<close>

theorem inherited_reference:
  "snd (load inherited_env ''root'' initial) =
     [Inr \<lparr>store_dir = ''root'', store_users = [0], store_groups = [0, 1],
           store_layers = [\<lparr>layer_id = ''prod'', layer_users = UserRefs [Obj 0, Builtin ''valueOf'']\<rparr>]\<rparr>]
   \<and> userHeap (fst (load inherited_env ''root'' initial)) =
     [\<lparr>uid = Some ''mallory'', cn = Some ''mallory'', user_publicKeys = [],
       primaryGroup = PrimaryRef (Builtin ''constructor''),
       groups = GroupRefs [Obj 0, Builtin ''toString'']\<rparr>]
   \<and> map group_cn (groupHeap (fst (load inherited_env ''root'' initial))) = [Some ''staff'', Some ''admin'']"
  by code_simp

end
